theory Spec2Isabelle
  imports Complex_Main
begin

section \<open>Price monitor (watch.py): strings and numbers\<close>

text \<open>
  Python strings are modelled as \<open>string\<close>, a list of 8-bit characters (the code points
  below 256). Amounts are Python floats in the source; here an amount is the exact
  rational value of the decimal text that was parsed, and the arithmetic on amounts is
  exact. Python rounds each of these values to the nearest binary64.
\<close>

definition is_digit :: "char \<Rightarrow> bool" where
  \<comment> \<open>the class \<open>[0-9]\<close>; below code point 256 it is also the digit class of \<open>re\<close>\<close>
  "is_digit c = (48 \<le> (of_char c :: nat) \<and> (of_char c :: nat) \<le> 57)"

definition digit_val :: "char \<Rightarrow> nat" where
  "digit_val c = of_char c - 48"

definition dec_val :: "string \<Rightarrow> nat" where
  \<comment> \<open>the number written by a string of decimal digits (0 for the empty string)\<close>
  "dec_val s = fold (\<lambda>c n. 10 * n + digit_val c) s 0"

definition py_float :: "string \<Rightarrow> rat option" where
  \<comment> \<open>Python's \<open>float(s)\<close> on the strings \<open>norm_price\<close> hands to it under a pattern that,
      like \<open>DEFAULT_REGEX\<close>, leaves only ASCII digits and \<open>.\<close>: digits with at most one
      point and at least one digit parse, everything else raises ValueError (\<open>None\<close>).
      Signs, exponents, underscores, blanks, \<open>inf\<close> and \<open>nan\<close>, which \<open>float\<close> also reads,
      are outside this model.\<close>
  "py_float s =
     (let ip = takeWhile (\<lambda>c. c \<noteq> CHR ''.'') s;
          rest = dropWhile (\<lambda>c. c \<noteq> CHR ''.'') s
      in case rest of
           [] \<Rightarrow> if ip \<noteq> [] \<and> list_all is_digit ip
                 then Some (of_nat (dec_val ip)) else None
         | _ # fp \<Rightarrow>
             if list_all is_digit ip \<and> list_all is_digit fp \<and> (ip \<noteq> [] \<or> fp \<noteq> [])
             then Some (of_nat (dec_val ip) + of_nat (dec_val fp) / 10 ^ length fp)
             else None)"

definition DEFAULT_REGEX :: "string \<Rightarrow> string" where
  \<comment> \<open>\<open>re.sub("[^0-9.]", "", s)\<close>: a pattern is modelled by what substituting the
      empty string for its matches does to a string\<close>
  "DEFAULT_REGEX s = filter (\<lambda>c. is_digit c \<or> c = CHR ''.'') s"

definition py_count :: "char \<Rightarrow> string \<Rightarrow> nat" where
  \<comment> \<open>\<open>s.count(c)\<close>\<close>
  "py_count c s = length (filter (\<lambda>d. d = c) s)"

fun py_replace_n :: "char \<Rightarrow> nat \<Rightarrow> string \<Rightarrow> string" where
  \<comment> \<open>\<open>s.replace(c, "", n)\<close>: delete the first n occurrences of c\<close>
  "py_replace_n c 0 s = s"
| "py_replace_n c (Suc n) [] = []"
| "py_replace_n c (Suc n) (d # s) =
     (if d = c then py_replace_n c n s else d # py_replace_n c (Suc n) s)"

definition collapse_points :: "string \<Rightarrow> string" where
  \<comment> \<open>lines 128-129 of \<open>norm_price\<close>\<close>
  "collapse_points cleaned =
     (if py_count (CHR ''.'') cleaned > 1
      then py_replace_n (CHR ''.'') (py_count (CHR ''.'') cleaned - 1) cleaned
      else cleaned)"

definition norm_price :: "(string \<Rightarrow> string) \<Rightarrow> string option \<Rightarrow> rat option" where
  "norm_price regex text =
     (case text of
        None \<Rightarrow> None
      | Some t \<Rightarrow>
          (let cleaned = collapse_points (regex t)
           in if cleaned = [] then None else py_float cleaned))"

text \<open>
  The decimal rendering of a number, used to state that parsing a rendered number gives
  the number back: \<open>digits_of n\<close> is \<open>str(n)\<close> and \<open>frac_digits k m\<close> writes m with
  exactly k digits.
\<close>

fun digits_of :: "nat \<Rightarrow> string" where
  "digits_of n =
     (if n < 10 then [char_of (48 + n)]
      else digits_of (n div 10) @ [char_of (48 + n mod 10)])"

declare digits_of.simps [simp del]

primrec frac_digits :: "nat \<Rightarrow> nat \<Rightarrow> string" where
  "frac_digits 0 m = []"
| "frac_digits (Suc k) m = frac_digits k (m div 10) @ [char_of (48 + m mod 10)]"

fun starts_with :: "string \<Rightarrow> string \<Rightarrow> bool" where
  \<comment> \<open>\<open>s.startswith(p)\<close>, pattern first\<close>
  "starts_with [] s = True"
| "starts_with (p # ps) [] = False"
| "starts_with (p # ps) (c # cs) = (p = c \<and> starts_with ps cs)"

fun py_in :: "string \<Rightarrow> string \<Rightarrow> bool" where
  \<comment> \<open>\<open>p in s\<close> on strings: p occurs in s as a contiguous substring\<close>
  "py_in p [] = (p = [])"
| "py_in p (c # cs) = (starts_with p (c # cs) \<or> py_in p cs)"

definition py_lower :: "char \<Rightarrow> char" where
  \<comment> \<open>\<open>str.lower\<close> on one code point below 256\<close>
  "py_lower c =
     (let n = (of_char c :: nat)
      in if (65 \<le> n \<and> n \<le> 90) \<or> (192 \<le> n \<and> n \<le> 222 \<and> n \<noteq> 215)
         then char_of (n + 32) else c)"

definition is_space :: "char \<Rightarrow> bool" where
  \<comment> \<open>the whitespace class of \<open>re\<close> on code points below 256\<close>
  "is_space c =
     (let n = (of_char c :: nat)
      in (9 \<le> n \<and> n \<le> 13) \<or> (28 \<le> n \<and> n \<le> 32) \<or> n = 133 \<or> n = 160)"

section \<open>Configuration\<close>

record config =
  SCRAPERAPI_KEY :: string
  CHANGE_THRESHOLD_PCT :: rat
  MIN_PRICE_FLOOR :: rat

definition default_config :: config where
  \<comment> \<open>the values the module takes when the environment sets none of them\<close>
  "default_config =
     \<lparr>SCRAPERAPI_KEY = [], CHANGE_THRESHOLD_PCT = 0, MIN_PRICE_FLOOR = 400\<rparr>"

definition MIN_DOMAIN_GAP :: rat where
  "MIN_DOMAIN_GAP = 3"

definition MAX_TRIES :: nat where
  "MAX_TRIES = 3"

section \<open>The fetcher\<close>

datatype json =
    JNull
  | JBool bool
  | JNum rat
  | JStr string
  | JArr "json list"
  | JObj "(string \<times> json) list"

text \<open>
  What \<open>json.loads\<close> returns. An object is the decoded dict: its pairs in insertion order,
  with distinct keys.
\<close>

record element =
  attrs :: "string \<Rightarrow> string option"
  get_text :: string

text \<open>
  A node found by BeautifulSoup, as far as \<open>extract_price\<close> looks at it: \<open>attrs node a\<close> is
  \<open>node.get(a)\<close> as \<open>str\<close> renders it (\<open>None\<close> for a missing attribute) and \<open>get_text node\<close> is
  \<open>node.get_text(strip=True)\<close>.
\<close>

record page =
  html :: string
  select_one :: "string \<Rightarrow> element option"
  ld_json :: "json option list"

text \<open>
  A response body: \<open>html\<close> is \<open>resp.text\<close>; \<open>select_one\<close> is \<open>soup.select_one\<close> on the parsed
  body; \<open>ld_json\<close> lists, for each \<open>script[type="application/ld+json"]\<close> in document order,
  what \<open>json.loads\<close> makes of its text, \<open>None\<close> where it raises.
\<close>

record response =
  status_code :: nat
  body :: page

record library =
  netloc :: "string \<Rightarrow> string"
  py_str :: "json \<Rightarrow> string"

text \<open>
  Two library functions the source calls and the model takes as given:
  \<open>urlsplit(url).netloc\<close> and Python's \<open>str\<close> on a decoded JSON value.
\<close>

datatype error =
    NetworkError
  | HTTPError nat
  | RetriesExhausted nat string
  | NoPriceFound

text \<open>
  The exceptions that leave \<open>extract_price\<close>: one raised by \<open>requests.get\<close> itself; the
  \<open>HTTPError\<close> of \<open>raise_for_status\<close>, with the status; the \<open>ValueError\<close> of line 121, whose
  message holds \<open>MAX_TRIES\<close> and the URL; the \<open>ValueError\<close> of line 227.
\<close>

datatype effect =
    ThrottleSleep rat
  | BackoffSleep rat
  | Request string rat

text \<open>
  The trace of what the fetcher does to the outside: \<open>time.sleep(w)\<close> at line 89, at line
  110 or 116, and \<open>requests.get(target)\<close> with the clock reading when it is issued.
\<close>

record world =
  clock :: rat
  LAST_FETCH :: "string \<Rightarrow> rat option"
  trace :: "effect list"

record attempt_env =
  throttle_jitter :: rat
  reply :: "response option"
  duration :: rat
  backoff_jitter :: rat

text \<open>
  What the outside supplies to one attempt: the draw of \<open>random.uniform(-5, 5)\<close>, what
  \<open>requests.get\<close> returns (\<open>None\<close> when it raises), how long it takes, and the draw of
  \<open>random.uniform(0, 1.5)\<close> or \<open>random.uniform(0, 1.0)\<close>. The clock advances by the
  sleeps and by the duration of each request, by nothing else.
\<close>

definition sleep :: "effect \<Rightarrow> rat \<Rightarrow> world \<Rightarrow> world" where
  "sleep e w st = st\<lparr>clock := clock st + w, trace := trace st @ [e]\<rparr>"

definition throttle :: "library \<Rightarrow> rat \<Rightarrow> string \<Rightarrow> world \<Rightarrow> world" where
  \<comment> \<open>\<open>_throttle\<close>, with the draw of the jitter as an argument\<close>
  "throttle lib jitter url st =
     (let dom = netloc lib url;
          now = clock st;
          last = (case LAST_FETCH st dom of None \<Rightarrow> 0 | Some t \<Rightarrow> t);
          gap = now - last;
          wait = MIN_DOMAIN_GAP - gap + jitter;
          st1 = (if wait > 0 then sleep (ThrottleSleep wait) wait st else st)
      in st1\<lparr>LAST_FETCH := (LAST_FETCH st1)(dom \<mapsto> clock st1)\<rparr>)"

definition hex_digit :: "nat \<Rightarrow> char" where
  "hex_digit n = ''0123456789ABCDEF'' ! n"

definition utf8 :: "nat \<Rightarrow> nat list" where
  \<comment> \<open>the UTF-8 bytes of a code point below 256\<close>
  "utf8 n = (if n < 128 then [n] else [192 + n div 64, 128 + n mod 64])"

definition quote_safe :: "char \<Rightarrow> bool" where
  \<comment> \<open>the characters \<open>quote\<close> never escapes: ASCII letters, digits and \<open>_.-~\<close>\<close>
  "quote_safe c =
     (let n = (of_char c :: nat)
      in (65 \<le> n \<and> n \<le> 90) \<or> (97 \<le> n \<and> n \<le> 122) \<or> (48 \<le> n \<and> n \<le> 57)
         \<or> c \<in> set ''_.-~'')"

definition quote :: "string \<Rightarrow> string" where
  \<comment> \<open>\<open>quote(url, safe='')\<close>\<close>
  "quote s =
     concat (map (\<lambda>c. if quote_safe c then [c]
                       else concat (map (\<lambda>b. [CHR ''%'', hex_digit (b div 16), hex_digit (b mod 16)])
                                        (utf8 (of_char c)))) s)"

definition maybe_proxy :: "config \<Rightarrow> string \<Rightarrow> string" where
  "maybe_proxy cfg url =
     (if SCRAPERAPI_KEY cfg \<noteq> [] \<and> py_in ''hydrow.com'' url
      then ''https://api.scraperapi.com/?api_key='' @ SCRAPERAPI_KEY cfg @ ''&url='' @ quote url
      else url)"

definition raise_for_status :: "response \<Rightarrow> error option" where
  \<comment> \<open>\<open>requests\<close> raises for the statuses 400 to 599 and for no other\<close>
  "raise_for_status resp =
     (if 400 \<le> status_code resp \<and> status_code resp < 600
      then Some (HTTPError (status_code resp)) else None)"

fun http_loop ::
  "config \<Rightarrow> library \<Rightarrow> (nat \<Rightarrow> attempt_env) \<Rightarrow> string \<Rightarrow> nat list \<Rightarrow> rat \<Rightarrow> world
     \<Rightarrow> (error + response) \<times> world" where
  "http_loop cfg lib env url [] delay st = (Inl (RetriesExhausted MAX_TRIES url), st)"
| "http_loop cfg lib env url (attempt # rest) delay st =
     (let e = env attempt;
          st1 = throttle lib (throttle_jitter e) url st;
          target = maybe_proxy cfg url;
          st2 = st1\<lparr>clock := clock st1 + duration e,
                    trace := trace st1 @ [Request target (clock st1)]\<rparr>
      in case reply e of
           None \<Rightarrow> (Inl NetworkError, st2)
         | Some resp \<Rightarrow>
             if status_code resp = 429 then
               (let wait = delay + backoff_jitter e
                in http_loop cfg lib env url rest (min (delay * 2) 30)
                     (sleep (BackoffSleep wait) wait st2))
             else if 500 \<le> status_code resp \<and> status_code resp < 600 then
               (let wait = delay + backoff_jitter e
                in http_loop cfg lib env url rest (min (delay * 2) 30)
                     (sleep (BackoffSleep wait) wait st2))
             else
               (case raise_for_status resp of
                  Some err \<Rightarrow> (Inl err, st2)
                | None \<Rightarrow> (Inr resp, st2)))"

definition http_get_with_backoff ::
  "config \<Rightarrow> library \<Rightarrow> (nat \<Rightarrow> attempt_env) \<Rightarrow> string \<Rightarrow> world
     \<Rightarrow> (error + response) \<times> world" where
  \<comment> \<open>the loop runs over \<open>range(1, MAX_TRIES + 1)\<close> with \<open>delay = 2.0\<close>\<close>
  "http_get_with_backoff cfg lib env url st =
     http_loop cfg lib env url [1..<MAX_TRIES + 1] 2 st"

section \<open>The extraction chain\<close>

definition selector_price ::
  "(string \<Rightarrow> string) \<Rightarrow> page \<Rightarrow> string \<Rightarrow> string \<Rightarrow> rat option" where
  \<comment> \<open>lines 160-165; \<open>None\<close> stands for falling through\<close>
  "selector_price regex pg selector attr =
     (case (if selector \<noteq> [] then select_one pg selector else None) of
        None \<Rightarrow> None
      | Some node \<Rightarrow>
          (let raw = (if attr \<noteq> [] \<and> attr \<noteq> ''inner_text'' then attrs node attr
                      else Some (get_text node))
           in norm_price regex raw))"

fun truthy :: "json \<Rightarrow> bool" where
  "truthy JNull = False"
| "truthy (JBool b) = b"
| "truthy (JNum q) = (q \<noteq> 0)"
| "truthy (JStr s) = (s \<noteq> [])"
| "truthy (JArr xs) = (xs \<noteq> [])"
| "truthy (JObj kvs) = (kvs \<noteq> [])"

fun find_price :: "json \<Rightarrow> json option"
  and find_in_offers :: "(string \<times> json) list \<Rightarrow> json option"
  and find_in_values :: "(string \<times> json) list \<Rightarrow> json option"
  and find_in_items :: "json list \<Rightarrow> json option" where
  "find_price (JObj kvs) =
     (case (case map_of kvs ''price'' of
              Some p \<Rightarrow> if truthy p then Some p else None
            | None \<Rightarrow> None) of
        Some p \<Rightarrow> Some p
      | None \<Rightarrow>
          (case find_in_offers kvs of
             Some p \<Rightarrow> Some p
           | None \<Rightarrow> find_in_values kvs))"
| "find_price (JArr xs) = find_in_items xs"
| "find_price JNull = None"
| "find_price (JBool b) = None"
| "find_price (JNum q) = None"
| "find_price (JStr s) = None"
| "find_in_offers [] = None"
| "find_in_offers (kv # kvs) =
     (if fst kv = ''offers'' then find_price (snd kv) else find_in_offers kvs)"
| "find_in_values [] = None"
| "find_in_values (kv # kvs) =
     (case find_price (snd kv) of Some p \<Rightarrow> Some p | None \<Rightarrow> find_in_values kvs)"
| "find_in_items [] = None"
| "find_in_items (x # xs) =
     (case find_price x of Some p \<Rightarrow> Some p | None \<Rightarrow> find_in_items xs)"

text \<open>
  \<open>find_in_offers\<close> is \<open>find_price(obj["offers"])\<close> when the key is present,
  \<open>find_in_values\<close> the loop over \<open>obj.values()\<close>, \<open>find_in_items\<close> the loop over a list.
  \<open>None\<close> is Python's \<open>None\<close>; a price that is returned is truthy, so never \<open>null\<close>.
\<close>

fun jsonld_price ::
  "library \<Rightarrow> (string \<Rightarrow> string) \<Rightarrow> json option list \<Rightarrow> rat option" where
  \<comment> \<open>lines 170-197, over the decoded scripts\<close>
  "jsonld_price lib regex [] = None"
| "jsonld_price lib regex (s # ss) =
     (case s of
        None \<Rightarrow> jsonld_price lib regex ss
      | Some data \<Rightarrow>
          (case find_price data of
             None \<Rightarrow> jsonld_price lib regex ss
           | Some p \<Rightarrow>
               (case norm_price regex (Some (py_str lib p)) of
                  Some amount \<Rightarrow> Some amount
                | None \<Rightarrow> jsonld_price lib regex ss)))"

fun collapse_ws :: "string \<Rightarrow> string" where
  \<comment> \<open>line 201, \<open>re.sub\<close> of whitespace runs: each maximal run becomes one blank\<close>
  "collapse_ws [] = []"
| "collapse_ws [c] = (if is_space c then '' '' else [c])"
| "collapse_ws (c # d # cs) =
     (if is_space c then (if is_space d then collapse_ws (d # cs) else CHR '' '' # collapse_ws (d # cs))
      else c # collapse_ws (d # cs))"

definition is_tok_char :: "char \<Rightarrow> bool" where
  \<comment> \<open>the class of digits, comma and point in the price patterns\<close>
  "is_tok_char c = (is_digit c \<or> c = CHR '','' \<or> c = CHR ''.'')"

definition ci_starts_with :: "string \<Rightarrow> string \<Rightarrow> bool" where
  \<comment> \<open>a literal of a pattern matched at the head of s under \<open>re.I\<close>\<close>
  "ci_starts_with p s = starts_with (map py_lower p) (map py_lower s)"

definition match_number :: "string \<Rightarrow> string option" where
  \<comment> \<open>the group: a digit, then one or more digits, commas or points, as many as there are\<close>
  "match_number s =
     (case s of
        [] \<Rightarrow> None
      | d # rest \<Rightarrow>
          if is_digit d \<and> takeWhile is_tok_char rest \<noteq> []
          then Some (d # takeWhile is_tok_char rest) else None)"

definition match_tail :: "string \<Rightarrow> string option" where
  \<comment> \<open>"Based on a price of", optional whitespace, a dollar sign and the group, at the head of s\<close>
  "match_tail s =
     (if ci_starts_with ''Based on a price of'' s
      then (case dropWhile is_space (drop (length ''Based on a price of'') s) of
              [] \<Rightarrow> None
            | c # rest \<Rightarrow> if c = CHR ''$'' then match_number rest else None)
      else None)"

fun first_tail :: "string \<Rightarrow> string option" where
  \<comment> \<open>the lazy \<open>.*?\<close>: the first place from here on where the tail matches\<close>
  "first_tail [] = None"
| "first_tail (c # cs) =
     (case match_tail (c # cs) of Some g \<Rightarrow> Some g | None \<Rightarrow> first_tail cs)"

fun re_search :: "string \<Rightarrow> bool \<Rightarrow> string \<Rightarrow> string option" where
  \<comment> \<open>\<open>re.search(pat, text, flags=re.I)\<close> for the four Peloton patterns, returning group 1:
      \<open>lead\<close> is the literal the pattern starts with, \<open>not_plus\<close> says whether the
      lookahead that refuses a following plus sign comes after it\<close>
  "re_search lead not_plus [] = None"
| "re_search lead not_plus (c # cs) =
     (if ci_starts_with lead (c # cs)
         \<and> \<not> (not_plus \<and> starts_with ''+'' (drop (length lead) (c # cs)))
      then (case first_tail (drop (length lead) (c # cs)) of
              Some g \<Rightarrow> Some g
            | None \<Rightarrow> re_search lead not_plus cs)
      else re_search lead not_plus cs)"

definition peloton_pattern :: "string \<Rightarrow> (string \<times> bool) option" where
  \<comment> \<open>lines 202-212: the pattern chosen from the product hint\<close>
  "peloton_pattern product_hint =
     (let ph = map py_lower product_hint
      in if py_in ''bike+'' ph \<or> py_in ''bike plus'' ph then Some (''Get the Peloton Bike+'', False)
         else if py_in ''bike'' ph then Some (''Get the Peloton Bike'', True)
         else if py_in ''tread'' ph \<or> py_in ''treadmill'' ph then Some (''Get the Peloton Tread'', True)
         else if py_in ''row'' ph then Some (''Get the Peloton Row'', False)
         else None)"

definition peloton_price ::
  "(string \<Rightarrow> string) \<Rightarrow> string \<Rightarrow> string option \<Rightarrow> string \<Rightarrow> rat option" where
  \<comment> \<open>lines 200-218\<close>
  "peloton_price regex url product_hint htm =
     (case product_hint of
        None \<Rightarrow> None
      | Some hint \<Rightarrow>
          if py_in ''onepeloton.com'' url \<and> hint \<noteq> [] then
            (case peloton_pattern hint of
               None \<Rightarrow> None
             | Some pat \<Rightarrow>
                 (case re_search (fst pat) (snd pat) (collapse_ws htm) of
                    None \<Rightarrow> None
                  | Some g \<Rightarrow> norm_price regex (Some g)))
          else None)"

function findall_dollar :: "string \<Rightarrow> string list" where
  \<comment> \<open>\<open>re.findall\<close> of a dollar sign followed by the group: the groups of the matches,
      left to right, the scan resuming after each match\<close>
  "findall_dollar [] = []"
| "findall_dollar (c # cs) =
     (if c = CHR ''$'' then
        (case match_number cs of
           Some g \<Rightarrow> g # findall_dollar (drop (length g) cs)
         | None \<Rightarrow> findall_dollar cs)
      else findall_dollar cs)"
  by pat_completeness auto
termination
  by (relation "measure length") auto

fun py_max :: "rat \<Rightarrow> rat list \<Rightarrow> rat" where
  \<comment> \<open>\<open>max\<close> of a non-empty list, first element apart\<close>
  "py_max m [] = m"
| "py_max m (x # xs) = py_max (if x > m then x else m) xs"

definition dollar_amounts :: "(string \<Rightarrow> string) \<Rightarrow> string \<Rightarrow> rat list" where
  \<comment> \<open>lines 221-222\<close>
  "dollar_amounts regex htm =
     List.map_filter (\<lambda>n. norm_price regex (Some n)) (findall_dollar htm)"

definition heuristic_price :: "config \<Rightarrow> (string \<Rightarrow> string) \<Rightarrow> string \<Rightarrow> rat option" where
  \<comment> \<open>lines 221-225\<close>
  "heuristic_price cfg regex htm =
     (let amounts = dollar_amounts regex htm
      in if amounts \<noteq> [] then
           (let above = filter (\<lambda>a. a \<ge> MIN_PRICE_FLOOR cfg) amounts;
                candidates = (if above \<noteq> [] then above else amounts)
            in Some (py_max (hd candidates) (tl candidates)))
         else None)"

definition extract_page ::
  "config \<Rightarrow> library \<Rightarrow> string \<Rightarrow> string \<Rightarrow> string \<Rightarrow> (string \<Rightarrow> string) \<Rightarrow> string option
     \<Rightarrow> page \<Rightarrow> error + rat" where
  \<comment> \<open>\<open>extract_price\<close> from line 159 on, given the response body\<close>
  "extract_page cfg lib url selector attr regex product_hint pg =
     (case selector_price regex pg selector attr of
        Some amount \<Rightarrow> Inr amount
      | None \<Rightarrow>
          (case jsonld_price lib regex (ld_json pg) of
             Some amount \<Rightarrow> Inr amount
           | None \<Rightarrow>
               (case peloton_price regex url product_hint (html pg) of
                  Some amt \<Rightarrow> Inr amt
                | None \<Rightarrow>
                    (case heuristic_price cfg regex (html pg) of
                       Some amount \<Rightarrow> Inr amount
                     | None \<Rightarrow> Inl NoPriceFound))))"

definition extract_price ::
  "config \<Rightarrow> library \<Rightarrow> (nat \<Rightarrow> attempt_env) \<Rightarrow> string \<Rightarrow> string \<Rightarrow> string
     \<Rightarrow> (string \<Rightarrow> string) \<Rightarrow> string option \<Rightarrow> world \<Rightarrow> (error + rat) \<times> world" where
  "extract_price cfg lib env url selector attr regex product_hint st =
     (case http_get_with_backoff cfg lib env url st of
        (Inl err, st') \<Rightarrow> (Inl err, st')
      | (Inr resp, st') \<Rightarrow>
          (extract_page cfg lib url selector attr regex product_hint (body resp), st'))"

section \<open>History and change detection\<close>

record watch_rule =
  competitor :: string
  product_name :: string
  product_url :: string
  price_selector_css :: string
  price_attribute :: string
  currency :: string
  normalize_regex :: "string \<Rightarrow> string"

text \<open>
  One row of the watch list after lines 266-272: the fields stripped and defaulted,
  \<open>product_url\<close> already through \<open>normalize_url\<close>, the pattern as its effect on a string.
\<close>

record observation =
  obs_ts :: int
  obs_competitor :: string
  obs_product_name :: string
  obs_amount :: "rat option"
  obs_currency :: string

text \<open>
  One entry of a history list. \<open>obs_ts\<close> is the whole second of the clock that the ISO
  timestamp writes; \<open>obs_amount\<close> is \<open>entry.get("amount")\<close>, \<open>None\<close> where a stored entry has
  no amount.
\<close>

datatype outcome =
    Skip
  | Error error
  | Init rat
  | NoChange rat
  | MinorChangeIgnored rat rat rat
  | Change rat rat rat

record line =
  line_competitor :: string
  line_product_name :: string
  line_url :: string
  line_currency :: string
  line_outcome :: outcome

text \<open>
  What one printed line or digest line says. \<open>Change prev amount pct\<close> and
  \<open>MinorChangeIgnored prev amount pct\<close> hold the numbers the line formats.
\<close>

record run_state =
  net :: world
  history :: "string \<Rightarrow> observation list option"
  events_by_comp :: "string \<Rightarrow> line list"
  init_count :: nat
  change_count :: nat
  error_count :: nat
  printed :: "line list"

definition change_pct :: "rat \<Rightarrow> rat \<Rightarrow> rat" where
  \<comment> \<open>line 307\<close>
  "change_pct prev amount = (if prev \<noteq> 0 then \<bar>amount - prev\<bar> / prev * 100 else 100)"

definition classify :: "config \<Rightarrow> rat option \<Rightarrow> rat \<Rightarrow> outcome" where
  \<comment> \<open>the branches of lines 300-316\<close>
  "classify cfg prev amount =
     (case prev of
        None \<Rightarrow> Init amount
      | Some p \<Rightarrow>
          if amount \<noteq> p then
            (let pct = change_pct p amount
             in if pct \<ge> CHANGE_THRESHOLD_PCT cfg then Change p amount pct
                else MinorChangeIgnored p amount pct)
          else NoChange amount)"

definition mk_line :: "watch_rule \<Rightarrow> outcome \<Rightarrow> line" where
  "mk_line r out =
     \<lparr>line_competitor = competitor r, line_product_name = product_name r,
      line_url = product_url r, line_currency = currency r, line_outcome = out\<rparr>"

definition emit :: "watch_rule \<Rightarrow> outcome \<Rightarrow> run_state \<Rightarrow> run_state" where
  \<comment> \<open>\<open>print(line)\<close> and \<open>events_by_comp[comp].append(line)\<close>\<close>
  "emit r out s =
     s\<lparr>printed := printed s @ [mk_line r out],
       events_by_comp := (events_by_comp s)
         (competitor r := events_by_comp s (competitor r) @ [mk_line r out])\<rparr>"

definition log_only :: "watch_rule \<Rightarrow> outcome \<Rightarrow> run_state \<Rightarrow> run_state" where
  \<comment> \<open>\<open>print\<close> alone\<close>
  "log_only r out s = s\<lparr>printed := printed s @ [mk_line r out]\<rparr>"

definition last_amount :: "(string \<Rightarrow> observation list option) \<Rightarrow> string \<Rightarrow> rat option" where
  \<comment> \<open>line 289\<close>
  "last_amount h key =
     (case h key of
        None \<Rightarrow> None
      | Some obs \<Rightarrow> if obs \<noteq> [] then obs_amount (last obs) else None)"

definition append_entry ::
  "(string \<Rightarrow> observation list option) \<Rightarrow> string \<Rightarrow> observation
     \<Rightarrow> (string \<Rightarrow> observation list option)" where
  \<comment> \<open>\<open>history.setdefault(key, []).append(entry)\<close>\<close>
  "append_entry h key entry =
     h(key \<mapsto> (case h key of None \<Rightarrow> [] | Some obs \<Rightarrow> obs) @ [entry])"

definition process_row ::
  "config \<Rightarrow> library \<Rightarrow> watch_rule \<times> (nat \<Rightarrow> attempt_env) \<Rightarrow> run_state \<Rightarrow> run_state" where
  \<comment> \<open>the body of the loop of \<open>main\<close> from line 274 on, for a row and what the network
      does while it is processed\<close>
  "process_row cfg lib row s =
     (let r = fst row; env = snd row
      in if product_url r = [] \<or> price_selector_css r = [] then log_only r Skip s
         else
           (case extract_price cfg lib env (product_url r) (price_selector_css r)
                   (price_attribute r) (normalize_regex r) (Some (product_name r)) (net s) of
              (Inl e, w) \<Rightarrow>
                (emit r (Error e) (s\<lparr>net := w\<rparr>))\<lparr>error_count := error_count s + 1\<rparr>
            | (Inr amt, w) \<Rightarrow>
                (let key = product_url r;
                     prev = last_amount (history s) key;
                     entry = \<lparr>obs_ts = \<lfloor>clock w\<rfloor>, obs_competitor = competitor r,
                              obs_product_name = product_name r, obs_amount = Some amt,
                              obs_currency = currency r\<rparr>;
                     s1 = s\<lparr>net := w, history := append_entry (history s) key entry\<rparr>
                 in case classify cfg prev amt of
                      Init a \<Rightarrow> (emit r (Init a) s1)\<lparr>init_count := init_count s + 1\<rparr>
                    | Change p a pct \<Rightarrow>
                        (emit r (Change p a pct) s1)\<lparr>change_count := change_count s + 1\<rparr>
                    | out \<Rightarrow> log_only r out s1)))"

fun main_loop ::
  "config \<Rightarrow> library \<Rightarrow> (watch_rule \<times> (nat \<Rightarrow> attempt_env)) list \<Rightarrow> run_state \<Rightarrow> run_state" where
  \<comment> \<open>\<open>for r in rows\<close>\<close>
  "main_loop cfg lib [] s = s"
| "main_loop cfg lib (row # rows) s = main_loop cfg lib rows (process_row cfg lib row s)"

section \<open>Observing a run\<close>

definition retryable :: "response \<Rightarrow> bool" where
  \<comment> \<open>the statuses for which the loop of \<open>http_get_with_backoff\<close> sleeps and continues\<close>
  "retryable resp =
     (status_code resp = 429 \<or> (500 \<le> status_code resp \<and> status_code resp < 600))"

definition final_result :: "attempt_env \<Rightarrow> error + response" where
  \<comment> \<open>how an attempt that is not retried ends: lines 106, 119 and 120\<close>
  "final_result e =
     (case reply e of
        None \<Rightarrow> Inl NetworkError
      | Some r \<Rightarrow> (case raise_for_status r of Some err \<Rightarrow> Inl err | None \<Rightarrow> Inr r))"

definition backoff_sleeps :: "effect list \<Rightarrow> rat list" where
  "backoff_sleeps tr = concat (map (\<lambda>e. case e of BackoffSleep w \<Rightarrow> [w] | _ \<Rightarrow> []) tr)"

definition request_times :: "effect list \<Rightarrow> rat list" where
  \<comment> \<open>when each \<open>requests.get\<close> of a trace was issued\<close>
  "request_times tr = concat (map (\<lambda>e. case e of Request u t \<Rightarrow> [t] | _ \<Rightarrow> []) tr)"

definition request_targets :: "effect list \<Rightarrow> string list" where
  "request_targets tr = concat (map (\<lambda>e. case e of Request u t \<Rightarrow> [u] | _ \<Rightarrow> []) tr)"

definition last_fetch :: "library \<Rightarrow> world \<Rightarrow> string \<Rightarrow> rat" where
  \<comment> \<open>\<open>_LAST_FETCH.get(dom, 0)\<close> for the domain of a URL\<close>
  "last_fetch lib st url = (case LAST_FETCH st (netloc lib url) of None \<Rightarrow> 0 | Some t \<Rightarrow> t)"

fun spaced :: "rat \<Rightarrow> rat list \<Rightarrow> bool" where
  \<comment> \<open>consecutive times are at least g apart\<close>
  "spaced g [] = True"
| "spaced g [t] = True"
| "spaced g (t # u # ts) = (g \<le> u - t \<and> spaced g (u # ts))"

definition env_ok :: "(nat \<Rightarrow> attempt_env) \<Rightarrow> bool" where
  \<comment> \<open>a request takes no negative time and \<open>random.uniform(0, x)\<close> draws no negative number\<close>
  "env_ok env = (\<forall>n. 0 \<le> duration (env n) \<and> 0 \<le> backoff_jitter (env n))"

definition extract_row ::
  "config \<Rightarrow> library \<Rightarrow> watch_rule \<Rightarrow> (nat \<Rightarrow> attempt_env) \<Rightarrow> world \<Rightarrow> (error + rat) \<times> world" where
  \<comment> \<open>the call of \<open>extract_price\<close> at line 279 for a row\<close>
  "extract_row cfg lib r env st =
     extract_price cfg lib env (product_url r) (price_selector_css r) (price_attribute r)
       (normalize_regex r) (Some (product_name r)) st"

definition entries :: "(string \<Rightarrow> observation list option) \<Rightarrow> string \<Rightarrow> observation list" where
  \<comment> \<open>the observations stored for a URL, none for an absent key\<close>
  "entries h key = (case h key of None \<Rightarrow> [] | Some obs \<Rightarrow> obs)"

definition history_ordered :: "run_state \<Rightarrow> bool" where
  \<comment> \<open>every list of the history is in timestamp order and holds nothing later than the clock\<close>
  "history_ordered s =
     (\<forall>u. sorted (map obs_ts (entries (history s) u))
          \<and> (\<forall>ob \<in> set (entries (history s) u). obs_ts ob \<le> \<lfloor>clock (net s)\<rfloor>))"

subsection \<open>Sample inputs for the examples\<close>

definition sample_library :: library where
  \<comment> \<open>stand-ins for the two library functions: the host of an \<open>https://\<close> URL, and \<open>str\<close>
      on a JSON string\<close>
  "sample_library =
     \<lparr>netloc = (\<lambda>u. takeWhile (\<lambda>c. c \<noteq> CHR ''/'') (drop 8 u)),
      py_str = (\<lambda>j. case j of JStr s \<Rightarrow> s | _ \<Rightarrow> [])\<rparr>"

definition text_page :: "string \<Rightarrow> page" where
  \<comment> \<open>a body on which no selector matches and that has no JSON-LD script\<close>
  "text_page h = \<lparr>html = h, select_one = (\<lambda>sel. None), ld_json = []\<rparr>"

definition priced_page :: page where
  \<comment> \<open>a body where the selector \<open>.price\<close> finds the text \<open>$1,299.00\<close> and a JSON-LD script
      offers the price \<open>999.00\<close>\<close>
  "priced_page =
     \<lparr>html = ''<span class=price>$1,299.00</span>'',
      select_one = (\<lambda>sel. if sel = ''.price''
                            then Some \<lparr>attrs = (\<lambda>a. None), get_text = ''$1,299.00''\<rparr>
                            else None),
      ld_json = [Some (JObj [(''offers'', JObj [(''price'', JStr ''999.00'')])])]\<rparr>"

definition replying :: "nat \<Rightarrow> page \<Rightarrow> nat \<Rightarrow> attempt_env" where
  \<comment> \<open>every attempt is answered with the same status and body after one second, no jitter\<close>
  "replying status pg n =
     \<lparr>throttle_jitter = 0, reply = Some \<lparr>status_code = status, body = pg\<rparr>,
      duration = 1, backoff_jitter = 0\<rparr>"

definition replying_seq :: "nat list \<Rightarrow> nat \<Rightarrow> attempt_env" where
  \<comment> \<open>attempt n is answered with the n-th status of the list and an empty body\<close>
  "replying_seq codes n =
     \<lparr>throttle_jitter = 0,
      reply = Some \<lparr>status_code = codes ! (n - 1),
                    body = \<lparr>html = [], select_one = (\<lambda>sel. None), ld_json = []\<rparr>\<rparr>,
      duration = 1, backoff_jitter = 0\<rparr>"

definition failing :: "nat \<Rightarrow> attempt_env" where
  \<comment> \<open>every attempt ends in an exception of \<open>requests.get\<close>\<close>
  "failing n = \<lparr>throttle_jitter = 0, reply = None, duration = 1, backoff_jitter = 0\<rparr>"

definition start_world :: world where
  "start_world = \<lparr>clock = 1000, LAST_FETCH = (\<lambda>d. None), trace = []\<rparr>"

definition sample_rule :: watch_rule where
  "sample_rule =
     \<lparr>competitor = ''Acme'', product_name = ''Rower'',
      product_url = ''https://example.com/rower'', price_selector_css = ''.price'',
      price_attribute = ''inner_text'', currency = ''USD'',
      normalize_regex = DEFAULT_REGEX\<rparr>"

definition start_state :: run_state where
  \<comment> \<open>a run that starts with one stored observation of 1000 for the sample rule\<close>
  "start_state =
     \<lparr>net = start_world,
      history = (\<lambda>u. if u = ''https://example.com/rower''
                      then Some [\<lparr>obs_ts = 900, obs_competitor = ''Acme'',
                                  obs_product_name = ''Rower'', obs_amount = Some 1000,
                                  obs_currency = ''USD''\<rparr>]
                      else None),
      events_by_comp = (\<lambda>c. []), init_count = 0, change_count = 0, error_count = 0,
      printed = []\<rparr>"

section \<open>Normalising a price\<close>

lemma py_replace_n_skip:
  "d \<noteq> c \<Longrightarrow> py_replace_n c n (d # s) = d # py_replace_n c n s"
  by (cases n) simp_all

lemma py_replace_n_before_last:
  "CHR ''.'' \<notin> set post \<Longrightarrow>
   py_replace_n (CHR ''.'') (py_count (CHR ''.'') pre) (pre @ CHR ''.'' # post)
     = filter (\<lambda>c. c \<noteq> CHR ''.'') pre @ CHR ''.'' # post"
  by (induction pre) (auto simp: py_count_def py_replace_n_skip)

lemma py_count_split:
  "CHR ''.'' \<notin> set post \<Longrightarrow>
   py_count (CHR ''.'') (pre @ CHR ''.'' # post) = Suc (py_count (CHR ''.'') pre)"
  by (induction post) (auto simp: py_count_def)

lemma py_count_zero_filter:
  "py_count (CHR ''.'') pre = 0 \<Longrightarrow> filter (\<lambda>c. c \<noteq> CHR ''.'') pre = pre"
  by (induction pre) (auto simp: py_count_def split: if_splits)

lemma collapse_points_split:
  assumes "CHR ''.'' \<notin> set post"
  shows "collapse_points (pre @ CHR ''.'' # post)
           = filter (\<lambda>c. c \<noteq> CHR ''.'') pre @ CHR ''.'' # post"
proof (cases "py_count (CHR ''.'') pre = 0")
  case True
  with assms show ?thesis
    by (simp add: collapse_points_def py_count_split py_count_zero_filter)
next
  case False
  with assms show ?thesis
    using py_replace_n_before_last [OF assms, of pre]
    by (simp add: collapse_points_def py_count_split)
qed

lemma py_count_collapsed:
  "CHR ''.'' \<notin> set post \<Longrightarrow>
   py_count (CHR ''.'') (filter (\<lambda>c. c \<noteq> CHR ''.'') pre @ CHR ''.'' # post) = 1"
  by (induction post) (auto simp: py_count_def)

lemma dec_val_snoc: "dec_val (s @ [c]) = 10 * dec_val s + digit_val c"
  by (simp add: dec_val_def)

lemma digit_val_char: "(n::nat) < 10 \<Longrightarrow> digit_val (char_of (48 + n)) = n"
  by (simp add: digit_val_def)

lemma is_digit_char: "(n::nat) < 10 \<Longrightarrow> is_digit (char_of (48 + n))"
  by (simp add: is_digit_def)

lemma dec_val_digits_of: "dec_val (digits_of n) = n"
proof (induction n rule: digits_of.induct)
  case (1 n)
  show ?case
  proof (cases "n < 10")
    case True
    then show ?thesis by (subst digits_of.simps) (simp add: dec_val_def digit_val_char)
  next
    case False
    with 1 show ?thesis
      by (subst digits_of.simps) (simp add: dec_val_snoc digit_val_char)
  qed
qed

lemma list_all_digits_of: "list_all is_digit (digits_of n)"
proof (induction n rule: digits_of.induct)
  case (1 n)
  show ?case
  proof (cases "n < 10")
    case True
    then show ?thesis by (subst digits_of.simps) (simp add: is_digit_char)
  next
    case False
    with 1 show ?thesis
      by (subst digits_of.simps) (simp add: is_digit_char)
  qed
qed

lemma digits_of_nonempty: "digits_of n \<noteq> []"
  by (subst digits_of.simps) simp

lemma list_all_frac_digits: "list_all is_digit (frac_digits k m)"
  by (induction k arbitrary: m) (simp_all add: is_digit_char)

lemma length_frac_digits: "length (frac_digits k m) = k"
  by (induction k arbitrary: m) simp_all

lemma dec_val_frac_digits: "m < 10 ^ k \<Longrightarrow> dec_val (frac_digits k m) = m"
proof (induction k arbitrary: m)
  case 0
  then show ?case by (simp add: dec_val_def)
next
  case (Suc k)
  then have "m div 10 < 10 ^ k" by (simp add: less_mult_imp_div_less mult.commute)
  with Suc.IH have "dec_val (frac_digits k (m div 10)) = m div 10" by blast
  then show ?case by (simp add: dec_val_snoc digit_val_char)
qed

lemma digit_not_point: "is_digit c \<Longrightarrow> c \<noteq> CHR ''.''"
  by (auto simp: is_digit_def)

lemma py_float_decimal:
  assumes "list_all is_digit ip" "list_all is_digit fp" "ip \<noteq> [] \<or> fp \<noteq> []"
  shows "py_float (ip @ CHR ''.'' # fp)
           = Some (of_nat (dec_val ip) + of_nat (dec_val fp) / 10 ^ length fp)"
proof -
  from assms(1) have "\<forall>c\<in>set ip. c \<noteq> CHR ''.''"
    by (auto simp: list_all_iff dest: digit_not_point)
  then have "takeWhile (\<lambda>c. c \<noteq> CHR ''.'') (ip @ CHR ''.'' # fp) = ip"
    and "dropWhile (\<lambda>c. c \<noteq> CHR ''.'') (ip @ CHR ''.'' # fp) = CHR ''.'' # fp"
    by (simp_all add: takeWhile_append2 dropWhile_append2)
  with assms show ?thesis by (simp add: py_float_def)
qed

lemma norm_price_rendered:
  assumes "m < 10 ^ k" "regex t = digits_of n @ CHR ''.'' # frac_digits k m"
  shows "norm_price regex (Some t) = Some (of_nat n + of_nat m / 10 ^ k)"
proof -
  have np: "CHR ''.'' \<notin> set (frac_digits k m)"
    using list_all_frac_digits [of k m] by (auto simp: list_all_iff dest: digit_not_point)
  have "filter (\<lambda>c. c \<noteq> CHR ''.'') (digits_of n) = digits_of n"
    using list_all_digits_of [of n] by (auto simp: list_all_iff filter_id_conv dest: digit_not_point)
  with np assms(2) have "collapse_points (regex t) = digits_of n @ CHR ''.'' # frac_digits k m"
    by (simp add: collapse_points_split)
  then show ?thesis
    using assms(1)
    by (simp add: norm_price_def py_float_decimal list_all_digits_of list_all_frac_digits
        digits_of_nonempty dec_val_digits_of dec_val_frac_digits length_frac_digits)
qed

text \<open>
  C2. \<open>norm_price\<close> first applies the rule's pattern. Whatever the cleaned string is, if
  its last decimal point is followed by \<open>post\<close> and preceded by \<open>pre\<close>, the string handed to
  \<open>float\<close> is \<open>pre\<close> without its points, then the point, then \<open>post\<close>: of k points exactly the
  last one survives, and with a single point the cleaned string is parsed as it is. A
  number rendered with one decimal point parses to its own value.
\<close>

theorem norm_price_decimal_points:
  "(regex t = pre @ CHR ''.'' # post \<and> CHR ''.'' \<notin> set post \<longrightarrow>
      norm_price regex (Some t) = py_float (filter (\<lambda>c. c \<noteq> CHR ''.'') pre @ CHR ''.'' # post)
      \<and> collapse_points (regex t) = filter (\<lambda>c. c \<noteq> CHR ''.'') pre @ CHR ''.'' # post
      \<and> py_count (CHR ''.'') (collapse_points (regex t)) = 1)
   \<and> (py_count (CHR ''.'') (regex t) = 1 \<longrightarrow>
      collapse_points (regex t) = regex t \<and> norm_price regex (Some t) = py_float (regex t))
   \<and> (m < 10 ^ k \<and> regex t = digits_of n @ CHR ''.'' # frac_digits k m \<longrightarrow>
      norm_price regex (Some t) = Some (of_nat n + of_nat m / 10 ^ k))"
proof (intro conjI impI)
  assume h: "regex t = pre @ CHR ''.'' # post \<and> CHR ''.'' \<notin> set post"
  then show c: "collapse_points (regex t) = filter (\<lambda>c. c \<noteq> CHR ''.'') pre @ CHR ''.'' # post"
    by (simp add: collapse_points_split)
  then show "norm_price regex (Some t)
      = py_float (filter (\<lambda>c. c \<noteq> CHR ''.'') pre @ CHR ''.'' # post)"
    by (simp add: norm_price_def)
  from h c show "py_count (CHR ''.'') (collapse_points (regex t)) = 1"
    by (simp add: py_count_collapsed)
next
  assume one: "py_count (CHR ''.'') (regex t) = 1"
  then show c: "collapse_points (regex t) = regex t"
    by (simp add: collapse_points_def)
  from one have "regex t \<noteq> []" by (auto simp: py_count_def)
  with c show "norm_price regex (Some t) = py_float (regex t)"
    by (simp add: norm_price_def)
next
  assume "m < 10 ^ k \<and> regex t = digits_of n @ CHR ''.'' # frac_digits k m"
  then show "norm_price regex (Some t) = Some (of_nat n + of_nat m / 10 ^ k)"
    by (simp add: norm_price_rendered)
qed

theorem norm_price_decimal_points_witness:
  "DEFAULT_REGEX ''$1.299.05'' = ''1.299'' @ CHR ''.'' # ''05''
   \<and> CHR ''.'' \<notin> set ''05''
   \<and> norm_price DEFAULT_REGEX (Some ''$1.299.05'') = Some (129905 / 100)
   \<and> py_count (CHR ''.'') (DEFAULT_REGEX ''12.50'') = 1
   \<and> norm_price DEFAULT_REGEX (Some ''12.50'') = py_float ''12.50''
   \<and> (50::nat) < 10 ^ 2
   \<and> DEFAULT_REGEX ''12.50'' = digits_of 12 @ CHR ''.'' # frac_digits 2 50
   \<and> norm_price DEFAULT_REGEX (Some ''12.50'') = Some (25 / 2)"
proof -
  have r1: "DEFAULT_REGEX ''$1.299.05'' = ''1.299'' @ CHR ''.'' # ''05''"
    by (simp add: DEFAULT_REGEX_def is_digit_def)
  have r2: "DEFAULT_REGEX ''12.50'' = ''12.50''"
    by (simp add: DEFAULT_REGEX_def is_digit_def)
  have d: "digits_of 12 = ''12''" "frac_digits 2 50 = ''50''"
    by code_simp+
  have c: "py_count (CHR ''.'') (DEFAULT_REGEX ''12.50'') = 1"
    by (simp add: r2 py_count_def)
  have f: "py_float ''1299.05'' = Some (129905 / 100)"
    by (simp add: py_float_def is_digit_def dec_val_def digit_val_def)
  note t1 = norm_price_decimal_points [of DEFAULT_REGEX "''$1.299.05''" "''1.299''" "''05''" 0 0 0]
  note t2 = norm_price_decimal_points [of DEFAULT_REGEX "''12.50''" "''12''" "''50''" 50 2 12]
  from t1 r1 have a1: "norm_price DEFAULT_REGEX (Some ''$1.299.05'') = Some (129905 / 100)"
    by (simp add: f)
  from t2 c have a2: "norm_price DEFAULT_REGEX (Some ''12.50'') = py_float ''12.50''"
    by (simp add: r2)
  from t2 have "(50::nat) < 10 ^ 2 \<and> DEFAULT_REGEX ''12.50'' = digits_of 12 @ CHR ''.'' # frac_digits 2 50
      \<longrightarrow> norm_price DEFAULT_REGEX (Some ''12.50'') = Some (of_nat 12 + of_nat 50 / 10 ^ 2)"
    by blast
  with r2 d have a3: "norm_price DEFAULT_REGEX (Some ''12.50'') = Some (25 / 2)"
    by simp
  from r1 r2 d c a1 a2 a3 show ?thesis by simp
qed

section \<open>The final fallback\<close>

lemma not_tok_dollar: "\<not> is_tok_char (CHR ''$'')"
  by (simp add: is_tok_char_def is_digit_def)

lemma not_digit_dollar: "\<not> is_digit (CHR ''$'')"
  by (simp add: is_digit_def)

lemma takeWhile_tok_dollar:
  "takeWhile is_tok_char (xs @ CHR ''$'' # s) = takeWhile is_tok_char xs"
  by (induction xs) (simp_all add: not_tok_dollar)

lemma match_number_length: "match_number s = Some g \<Longrightarrow> length g \<le> length s"
  by (auto simp: match_number_def split: list.splits if_splits
      intro: le_trans [OF length_takeWhile_le])

lemma match_number_append_dollar:
  "match_number (cs @ CHR ''$'' # s) = match_number cs"
  by (cases cs) (simp_all add: match_number_def not_digit_dollar takeWhile_tok_dollar)

lemma findall_dollar_append:
  "findall_dollar (pre @ CHR ''$'' # s) = findall_dollar pre @ findall_dollar (CHR ''$'' # s)"
proof (induction pre rule: findall_dollar.induct)
  case 1
  show ?case by simp
next
  case (2 c cs)
  have step: "findall_dollar ((c # cs) @ CHR ''$'' # s) =
     (if c = CHR ''$'' then
        (case match_number cs of
           Some g \<Rightarrow> g # findall_dollar (drop (length g) cs @ CHR ''$'' # s)
         | None \<Rightarrow> findall_dollar (cs @ CHR ''$'' # s))
      else findall_dollar (cs @ CHR ''$'' # s))"
    using match_number_length [of cs]
    by (auto simp: match_number_append_dollar split: option.splits)
  show ?case
  proof (cases "c = CHR ''$''")
    case False
    with 2(3) step show ?thesis by simp
  next
    case True
    show ?thesis
    proof (cases "match_number cs")
      case None
      with True 2(1) step show ?thesis by simp
    next
      case (Some g)
      with True 2(2) step show ?thesis by simp
    qed
  qed
qed

lemma match_number_shape:
  "match_number s = Some g \<Longrightarrow>
     2 \<le> length g \<and> is_digit (hd g) \<and> list_all is_tok_char (tl g)"
  by (auto simp: match_number_def list_all_iff split: list.splits if_splits
      dest: set_takeWhileD) (metis Suc_leI length_greater_0_conv)

lemma findall_dollar_shape:
  "g \<in> set (findall_dollar s) \<Longrightarrow>
     2 \<le> length g \<and> is_digit (hd g) \<and> list_all is_tok_char (tl g)"
proof (induction s rule: findall_dollar.induct)
  case 1
  then show ?case by simp
next
  case (2 c cs)
  then show ?case
    by (auto split: if_splits option.splits dest: match_number_shape)
qed

lemma findall_dollar_single_digit:
  assumes "is_digit d" "rest = [] \<or> \<not> is_tok_char (hd rest)"
  shows "findall_dollar (CHR ''$'' # d # rest) = findall_dollar rest"
proof -
  from assms(2) have "takeWhile is_tok_char rest = []" by (cases rest) auto
  then have "match_number (d # rest) = None" by (simp add: match_number_def)
  moreover from assms(1) have "d \<noteq> CHR ''$''" using not_digit_dollar by auto
  ultimately show ?thesis by simp
qed

lemma findall_dollar_token:
  assumes "is_digit d" "run \<noteq> []" "list_all is_tok_char run"
    "rest = [] \<or> \<not> is_tok_char (hd rest)"
  shows "findall_dollar (CHR ''$'' # d # run @ rest) = (d # run) # findall_dollar rest"
proof -
  from assms(3,4) have "takeWhile is_tok_char (run @ rest) = run"
    by (cases rest) (auto simp: list_all_iff takeWhile_append2)
  with assms(1,2) have "match_number (d # run @ rest) = Some (d # run)"
    by (simp add: match_number_def)
  then show ?thesis by simp
qed

lemma py_max_Max: "py_max m xs = Max (set (m # xs))"
proof (induction xs arbitrary: m)
  case Nil
  then show ?case by simp
next
  case (Cons x xs)
  have "Max (insert m (insert x (set xs))) = max m (Max (insert x (set xs)))"
    by (rule Max_insert) simp_all
  also have "Max (insert x (set xs)) = (if set xs = {} then x else max x (Max (set xs)))"
    by simp
  finally have l: "Max (insert m (insert x (set xs)))
      = (if set xs = {} then max m x else max m (max x (Max (set xs))))"
    by simp
  have r: "Max (insert (max m x) (set xs))
      = (if set xs = {} then max m x else max (max m x) (Max (set xs)))"
    by simp
  have "py_max m (x # xs) = py_max (max m x) xs"
    by (simp add: max_def)
  also have "\<dots> = Max (insert (max m x) (set xs))"
    using Cons.IH [of "max m x"] by simp
  also have "\<dots> = Max (insert m (insert x (set xs)))"
    using l r by (simp add: max.assoc)
  finally show ?case by simp
qed

lemma attempts_list: "[1..<MAX_TRIES + 1] = [1, 2, 3]"
  by (simp add: MAX_TRIES_def upt_rec)

lemma http_loop_decided:
  assumes "reply (env a) = Some r" "\<not> retryable r"
  shows "fst (http_loop cfg lib env url (a # rest) d st)
           = (case raise_for_status r of Some e \<Rightarrow> Inl e | None \<Rightarrow> Inr r)"
  using assms by (auto simp: Let_def retryable_def split: option.splits)

lemma dollar_amounts_empty: "findall_dollar htm = [] \<Longrightarrow> dollar_amounts regex htm = []"
  by (simp add: dollar_amounts_def map_filter_simps)

lemma heuristic_price_Max:
  "heuristic_price cfg regex htm =
     (let amounts = dollar_amounts regex htm;
          above = {a \<in> set amounts. MIN_PRICE_FLOOR cfg \<le> a}
      in if amounts = [] then None
         else if above \<noteq> {} then Some (Max above) else Some (Max (set amounts)))"
proof (cases "dollar_amounts regex htm = []")
  case True
  then show ?thesis by (simp add: heuristic_price_def)
next
  case False
  let ?am = "dollar_amounts regex htm"
  let ?ab = "filter (\<lambda>a. MIN_PRICE_FLOOR cfg \<le> a) ?am"
  have set_ab: "set ?ab = {a \<in> set ?am. MIN_PRICE_FLOOR cfg \<le> a}" by auto
  have mx: "xs \<noteq> [] \<Longrightarrow> py_max (hd xs) (tl xs) = Max (set xs)" for xs
    by (cases xs) (simp_all add: py_max_Max)
  show ?thesis
  proof (cases "?ab = []")
    case True
    then have "{a \<in> set ?am. MIN_PRICE_FLOOR cfg \<le> a} = {}"
      using set_ab by (metis set_empty)
    with False True show ?thesis
      by (simp add: heuristic_price_def Let_def mx)
  next
    case ne: False
    then have "{a \<in> set ?am. MIN_PRICE_FLOOR cfg \<le> a} \<noteq> {}"
      using set_ab by (metis set_empty)
    with False ne show ?thesis
      using mx [OF ne] set_ab by (simp add: heuristic_price_def Let_def)
  qed
qed

text \<open>
  C10. The scan of the final fallback never collects a single-digit dollar amount: every
  token it returns has a digit followed by at least one more digit, comma or point, and
  a dollar sign with one digit followed by anything else (or by the end of the text)
  contributes no token at all. A page whose only dollar amount is \<open>$5\<close> therefore has no
  candidate, whatever the floor.
\<close>

theorem findall_dollar_no_single_digit:
  "(\<forall>g \<in> set (findall_dollar htm).
       2 \<le> length g \<and> is_digit (hd g) \<and> list_all is_tok_char (tl g))
   \<and> (is_digit d \<and> (rest = [] \<or> \<not> is_tok_char (hd rest)) \<longrightarrow>
        findall_dollar (pre @ CHR ''$'' # d # rest) = findall_dollar pre @ findall_dollar rest)
   \<and> findall_dollar ''$5 shipping'' = []
   \<and> findall_dollar ''$5'' = []
   \<and> heuristic_price cfg regex ''$5 shipping'' = None"
proof (intro conjI impI ballI)
  fix g assume "g \<in> set (findall_dollar htm)"
  then show "2 \<le> length g" "is_digit (hd g)" "list_all is_tok_char (tl g)"
    by (simp_all add: findall_dollar_shape)
next
  assume "is_digit d \<and> (rest = [] \<or> \<not> is_tok_char (hd rest))"
  then have "findall_dollar (CHR ''$'' # d # rest) = findall_dollar rest"
    by (intro findall_dollar_single_digit) simp_all
  then show "findall_dollar (pre @ CHR ''$'' # d # rest) = findall_dollar pre @ findall_dollar rest"
    by (simp only: findall_dollar_append)
next
  show e: "findall_dollar ''$5 shipping'' = []"
    by (simp add: match_number_def is_digit_def is_tok_char_def)
  show "findall_dollar ''$5'' = []"
    by (simp add: match_number_def is_digit_def is_tok_char_def)
  from e show "heuristic_price cfg regex ''$5 shipping'' = None"
    by (simp add: heuristic_price_def dollar_amounts_empty)
qed

theorem findall_dollar_no_single_digit_witness:
  "findall_dollar ''$5 and $999.00'' = [''999.00'']
   \<and> 2 \<le> length (hd (findall_dollar ''$5 and $999.00''))
   \<and> is_digit (CHR ''5'') \<and> \<not> is_tok_char (hd '' a $7'')
   \<and> findall_dollar (''$12.50 or '' @ CHR ''$'' # CHR ''5'' # '' a $7'') = [''12.50'']"
proof -
  have f: "findall_dollar ''$5 and $999.00'' = [''999.00'']"
    by (simp add: match_number_def is_digit_def is_tok_char_def)
  have h: "is_digit (CHR ''5'')" "\<not> is_tok_char (hd '' a $7'')"
    by (simp_all add: is_digit_def is_tok_char_def)
  have p: "findall_dollar ''$12.50 or '' = [''12.50'']" "findall_dollar '' a $7'' = []"
    by (simp_all add: match_number_def is_digit_def is_tok_char_def)
  note t = findall_dollar_no_single_digit
    [of "''$5 and $999.00''" "CHR ''5''" "'' a $7''" "''$12.50 or ''" default_config DEFAULT_REGEX]
  from t have "\<forall>g \<in> set (findall_dollar ''$5 and $999.00''). 2 \<le> length g" by blast
  then have "2 \<le> length (hd (findall_dollar ''$5 and $999.00''))" unfolding f by simp
  moreover from t h have
    "findall_dollar (''$12.50 or '' @ CHR ''$'' # CHR ''5'' # '' a $7'')
       = findall_dollar ''$12.50 or '' @ findall_dollar '' a $7''"
    by blast
  ultimately show ?thesis using f h p by simp
qed

text \<open>
  C8. When the selector, the JSON-LD scripts and the Peloton pattern have produced
  nothing, \<open>extract_price\<close> collects the dollar tokens of the page (each dollar sign
  followed by a digit and a run of digits, commas and points is collected), normalises
  them, and returns the greatest amount at or above \<open>MIN_PRICE_FLOOR\<close>, or the greatest
  amount of all when none reaches the floor; with no amount at all it raises. A page with
  \<open>$5 shipping\<close> and \<open>$999 price\<close> gives 999 under the default floor of 400.
\<close>

theorem heuristic_fallback:
  "(selector_price regex pg selector attr = None
      \<and> jsonld_price lib regex (ld_json pg) = None
      \<and> peloton_price regex url hint (html pg) = None \<longrightarrow>
    extract_page cfg lib url selector attr regex hint pg =
      (let amounts = List.map_filter (\<lambda>n. norm_price regex (Some n)) (findall_dollar (html pg));
           above = {a \<in> set amounts. MIN_PRICE_FLOOR cfg \<le> a}
       in if amounts = [] then Inl NoPriceFound
          else if above \<noteq> {} then Inr (Max above) else Inr (Max (set amounts))))
   \<and> (is_digit d \<and> run \<noteq> [] \<and> list_all is_tok_char run
        \<and> (rest = [] \<or> \<not> is_tok_char (hd rest)) \<longrightarrow>
      findall_dollar (pre @ CHR ''$'' # d # run @ rest)
        = findall_dollar pre @ (d # run) # findall_dollar rest)
   \<and> MIN_PRICE_FLOOR default_config = 400
   \<and> extract_page default_config sample_library ''https://example.com/rower'' ''.price''
        ''inner_text'' DEFAULT_REGEX (Some ''Rower'') (text_page ''$5 shipping, $999 price'')
        = Inr 999"
proof (intro conjI impI)
  assume h: "selector_price regex pg selector attr = None
      \<and> jsonld_price lib regex (ld_json pg) = None
      \<and> peloton_price regex url hint (html pg) = None"
  let ?am = "List.map_filter (\<lambda>n. norm_price regex (Some n)) (findall_dollar (html pg))"
  let ?ab = "{a \<in> set ?am. MIN_PRICE_FLOOR cfg \<le> a}"
  from h have e: "extract_page cfg lib url selector attr regex hint pg =
      (case heuristic_price cfg regex (html pg) of Some a \<Rightarrow> Inr a | None \<Rightarrow> Inl NoPriceFound)"
    by (simp add: extract_page_def)
  have hp: "heuristic_price cfg regex (html pg) =
      (if ?am = [] then None else if ?ab \<noteq> {} then Some (Max ?ab) else Some (Max (set ?am)))"
    unfolding heuristic_price_Max [of cfg regex "html pg"] dollar_amounts_def Let_def ..
  have "extract_page cfg lib url selector attr regex hint pg =
      (if ?am = [] then Inl NoPriceFound
       else if ?ab \<noteq> {} then Inr (Max ?ab) else Inr (Max (set ?am)))"
  proof (cases "?am = []")
    case True
    then show ?thesis unfolding e hp by simp
  next
    case ne: False
    show ?thesis
    proof (cases "?ab = {}")
      case True
      with ne show ?thesis unfolding e hp by (simp only: if_False if_True not_True_eq_False not_False_eq_True option.case simp_thms)
    next
      case False
      with ne show ?thesis unfolding e hp by (simp only: if_False if_True not_True_eq_False not_False_eq_True option.case simp_thms)
    qed
  qed
  then show "extract_page cfg lib url selector attr regex hint pg =
      (let amounts = List.map_filter (\<lambda>n. norm_price regex (Some n)) (findall_dollar (html pg));
           above = {a \<in> set amounts. MIN_PRICE_FLOOR cfg \<le> a}
       in if amounts = [] then Inl NoPriceFound
          else if above \<noteq> {} then Inr (Max above) else Inr (Max (set amounts)))"
    unfolding Let_def .
next
  assume "is_digit d \<and> run \<noteq> [] \<and> list_all is_tok_char run
        \<and> (rest = [] \<or> \<not> is_tok_char (hd rest))"
  then have "findall_dollar (CHR ''$'' # d # run @ rest) = (d # run) # findall_dollar rest"
    by (intro findall_dollar_token) simp_all
  then show "findall_dollar (pre @ CHR ''$'' # d # run @ rest)
        = findall_dollar pre @ (d # run) # findall_dollar rest"
    by (simp only: findall_dollar_append)
next
  show "MIN_PRICE_FLOOR default_config = 400" by (simp add: default_config_def)
next
  have f: "findall_dollar ''$5 shipping, $999 price'' = [''999'']"
    by (simp add: match_number_def is_digit_def is_tok_char_def)
  have n: "norm_price DEFAULT_REGEX (Some ''999'') = Some 999"
    by (simp add: norm_price_def DEFAULT_REGEX_def collapse_points_def py_count_def
        py_float_def is_digit_def dec_val_def digit_val_def)
  have "dollar_amounts DEFAULT_REGEX ''$5 shipping, $999 price'' = [999]"
    unfolding dollar_amounts_def f by (simp add: map_filter_simps n)
  then have "heuristic_price default_config DEFAULT_REGEX ''$5 shipping, $999 price'' = Some 999"
    by (simp add: heuristic_price_def default_config_def)
  then show "extract_page default_config sample_library ''https://example.com/rower'' ''.price''
        ''inner_text'' DEFAULT_REGEX (Some ''Rower'') (text_page ''$5 shipping, $999 price'')
        = Inr 999"
    by (simp add: extract_page_def selector_price_def text_page_def peloton_price_def)
qed

theorem heuristic_fallback_witness:
  "selector_price DEFAULT_REGEX (text_page ''$12 fee, $450.50 now, was $1,200'') ''.price''
       ''inner_text'' = None
   \<and> jsonld_price sample_library DEFAULT_REGEX
       (ld_json (text_page ''$12 fee, $450.50 now, was $1,200'')) = None
   \<and> peloton_price DEFAULT_REGEX ''https://example.com/rower'' (Some ''Rower'')
       (html (text_page ''$12 fee, $450.50 now, was $1,200'')) = None
   \<and> extract_page default_config sample_library ''https://example.com/rower'' ''.price''
       ''inner_text'' DEFAULT_REGEX (Some ''Rower'')
       (text_page ''$12 fee, $450.50 now, was $1,200'') = Inr 1200
   \<and> is_digit (CHR ''9'') \<and> ''9'' \<noteq> [] \<and> list_all is_tok_char ''9''
   \<and> \<not> is_tok_char (hd '' b'')
   \<and> findall_dollar (''a '' @ CHR ''$'' # CHR ''9'' # ''9'' @ '' b'') = [''99'']"
proof -
  let ?pg = "text_page ''$12 fee, $450.50 now, was $1,200''"
  have h1: "selector_price DEFAULT_REGEX ?pg ''.price'' ''inner_text'' = None"
    by (simp add: selector_price_def text_page_def)
  have h2: "jsonld_price sample_library DEFAULT_REGEX (ld_json ?pg) = None"
    by (simp add: text_page_def)
  have h3: "peloton_price DEFAULT_REGEX ''https://example.com/rower'' (Some ''Rower'')
       (html ?pg) = None"
    by (simp add: peloton_price_def)
  have f: "findall_dollar (html ?pg) = [''12'', ''450.50'', ''1,200'']"
    by (simp add: text_page_def match_number_def is_digit_def is_tok_char_def)
  have n: "norm_price DEFAULT_REGEX (Some ''12'') = Some 12"
    "norm_price DEFAULT_REGEX (Some ''450.50'') = Some (901 / 2)"
    "norm_price DEFAULT_REGEX (Some ''1,200'') = Some 1200"
    by (simp_all add: norm_price_def DEFAULT_REGEX_def collapse_points_def py_count_def
        py_float_def is_digit_def dec_val_def digit_val_def)
  have am: "List.map_filter (\<lambda>n. norm_price DEFAULT_REGEX (Some n)) (findall_dollar (html ?pg))
      = [12, 901 / 2, 1200]"
    unfolding f by (simp add: map_filter_simps n)
  have ab: "{a \<in> set [12, 901 / 2, 1200]. MIN_PRICE_FLOOR default_config \<le> a}
      = {901 / 2, 1200 :: rat}"
    by (auto simp: default_config_def)
  have mx: "Max {901 / 2, 1200 :: rat} = 1200" by simp
  note t = heuristic_fallback [of DEFAULT_REGEX ?pg "''.price''" "''inner_text''" sample_library
      "''https://example.com/rower''" "Some ''Rower''" default_config
      "CHR ''9''" "''9''" "'' b''" "''a ''"]
  from t h1 h2 h3 have "extract_page default_config sample_library ''https://example.com/rower''
      ''.price'' ''inner_text'' DEFAULT_REGEX (Some ''Rower'') ?pg = Inr 1200"
    unfolding am Let_def ab mx by simp
  moreover have d: "is_digit (CHR ''9'')" "list_all is_tok_char ''9''"
    "\<not> is_tok_char (hd '' b'')"
    by (simp_all add: is_digit_def is_tok_char_def)
  moreover have p: "findall_dollar ''a '' = []" "findall_dollar '' b'' = []"
    by simp_all
  moreover from t d have "findall_dollar (''a '' @ CHR ''$'' # CHR ''9'' # ''9'' @ '' b'')
      = findall_dollar ''a '' @ (CHR ''9'' # ''9'') # findall_dollar '' b''"
    by blast
  ultimately show ?thesis using h1 h2 h3 by simp
qed

section \<open>Strategy order\<close>

text \<open>
  C1. When the rule's selector matches an element whose attribute or text normalises to
  an amount, \<open>extract_price\<close> returns that amount, whatever the JSON-LD scripts, the
  Peloton footnote or the dollar amounts of the page say. The order goes on: a JSON-LD
  price is returned before the Peloton pattern is tried, and a Peloton price before the
  final fallback.
\<close>

theorem selector_takes_precedence:
  "(fst (http_get_with_backoff cfg lib env url st) = Inr resp
      \<and> selector \<noteq> []
      \<and> select_one (body resp) selector = Some node
      \<and> norm_price regex (if attr \<noteq> [] \<and> attr \<noteq> ''inner_text'' then attrs node attr
                           else Some (get_text node)) = Some a \<longrightarrow>
    fst (extract_price cfg lib env url selector attr regex hint st) = Inr a
      \<and> snd (extract_price cfg lib env url selector attr regex hint st)
          = snd (http_get_with_backoff cfg lib env url st)
      \<and> extract_page cfg lib url selector attr regex hint (body resp) = Inr a)
   \<and> (selector_price regex pg selector attr = None
        \<and> jsonld_price lib regex (ld_json pg) = Some b \<longrightarrow>
      extract_page cfg lib url selector attr regex hint pg = Inr b)
   \<and> (selector_price regex pg selector attr = None
        \<and> jsonld_price lib regex (ld_json pg) = None
        \<and> peloton_price regex url hint (html pg) = Some c \<longrightarrow>
      extract_page cfg lib url selector attr regex hint pg = Inr c)"
proof (intro conjI impI)
  assume h: "fst (http_get_with_backoff cfg lib env url st) = Inr resp
      \<and> selector \<noteq> []
      \<and> select_one (body resp) selector = Some node
      \<and> norm_price regex (if attr \<noteq> [] \<and> attr \<noteq> ''inner_text'' then attrs node attr
                           else Some (get_text node)) = Some a"
  then have sp: "selector_price regex (body resp) selector attr = Some a"
    by (simp add: selector_price_def)
  then show pg: "extract_page cfg lib url selector attr regex hint (body resp) = Inr a"
    by (simp add: extract_page_def)
  obtain r w where rw: "http_get_with_backoff cfg lib env url st = (r, w)"
    by (cases "http_get_with_backoff cfg lib env url st")
  with h have "r = Inr resp" by simp
  with rw pg show "fst (extract_price cfg lib env url selector attr regex hint st) = Inr a"
    and "snd (extract_price cfg lib env url selector attr regex hint st)
          = snd (http_get_with_backoff cfg lib env url st)"
    by (simp_all add: extract_price_def)
next
  assume "selector_price regex pg selector attr = None
        \<and> jsonld_price lib regex (ld_json pg) = Some b"
  then show "extract_page cfg lib url selector attr regex hint pg = Inr b"
    by (simp add: extract_page_def)
next
  assume "selector_price regex pg selector attr = None
        \<and> jsonld_price lib regex (ld_json pg) = None
        \<and> peloton_price regex url hint (html pg) = Some c"
  then show "extract_page cfg lib url selector attr regex hint pg = Inr c"
    by (simp add: extract_page_def)
qed

theorem selector_takes_precedence_witness:
  "fst (http_get_with_backoff default_config sample_library (replying 200 priced_page)
         ''https://example.com/rower'' start_world)
     = Inr \<lparr>status_code = 200, body = priced_page\<rparr>
   \<and> map_option get_text (select_one priced_page ''.price'') = Some ''$1,299.00''
   \<and> norm_price DEFAULT_REGEX (Some ''$1,299.00'') = Some 1299
   \<and> jsonld_price sample_library DEFAULT_REGEX (ld_json priced_page) = Some 999
   \<and> fst (extract_price default_config sample_library (replying 200 priced_page)
            ''https://example.com/rower'' ''.price'' ''inner_text'' DEFAULT_REGEX
            (Some ''Rower'') start_world) = Inr 1299
   \<and> selector_price DEFAULT_REGEX priced_page ''.cost'' ''inner_text'' = None
   \<and> extract_page default_config sample_library ''https://example.com/rower'' ''.cost''
        ''inner_text'' DEFAULT_REGEX (Some ''Rower'') priced_page = Inr 999
   \<and> peloton_price DEFAULT_REGEX ''https://www.onepeloton.com/row'' (Some ''Row'')
        (html (text_page ''Get the Peloton Row. Based on a price of $3,295 or $92/mo''))
       = Some 3295
   \<and> extract_page default_config sample_library ''https://www.onepeloton.com/row'' ''.cost''
        ''inner_text'' DEFAULT_REGEX (Some ''Row'')
        (text_page ''Get the Peloton Row. Based on a price of $3,295 or $92/mo'') = Inr 3295"
proof -
  let ?resp = "\<lparr>status_code = 200, body = priced_page\<rparr>"
  let ?node = "\<lparr>attrs = (\<lambda>a. None), get_text = ''$1,299.00''\<rparr>"
  let ?row = "text_page ''Get the Peloton Row. Based on a price of $3,295 or $92/mo''"
  have f: "fst (http_get_with_backoff default_config sample_library (replying 200 priced_page)
         ''https://example.com/rower'' start_world) = Inr ?resp"
    unfolding http_get_with_backoff_def attempts_list
    by (subst http_loop_decided [where r = ?resp])
      (simp_all add: replying_def retryable_def raise_for_status_def)
  have s: "select_one priced_page ''.price'' = Some ?node"
    by (simp add: priced_page_def)
  have n: "norm_price DEFAULT_REGEX (Some ''$1,299.00'') = Some 1299"
    by (simp add: norm_price_def DEFAULT_REGEX_def collapse_points_def py_count_def
        py_float_def is_digit_def dec_val_def digit_val_def)
  have j: "jsonld_price sample_library DEFAULT_REGEX (ld_json priced_page) = Some 999"
    by (simp add: priced_page_def sample_library_def norm_price_def DEFAULT_REGEX_def
        collapse_points_def py_count_def py_float_def is_digit_def dec_val_def digit_val_def)
  have c: "selector_price DEFAULT_REGEX priced_page ''.cost'' ''inner_text'' = None"
    by (simp add: selector_price_def priced_page_def)
  have sr: "selector_price DEFAULT_REGEX ?row ''.cost'' ''inner_text'' = None"
    "jsonld_price sample_library DEFAULT_REGEX (ld_json ?row) = None"
    by (simp_all add: selector_price_def text_page_def)
  have p: "peloton_price DEFAULT_REGEX ''https://www.onepeloton.com/row'' (Some ''Row'')
        (html ?row) = Some 3295"
    by (simp add: text_page_def peloton_price_def peloton_pattern_def py_lower_def char_of_def
        bit_Suc_0_iff ci_starts_with_def match_tail_def match_number_def is_space_def
        is_digit_def is_tok_char_def norm_price_def DEFAULT_REGEX_def collapse_points_def
        py_count_def py_float_def dec_val_def digit_val_def)
  note t1 = selector_takes_precedence [of default_config sample_library
      "replying 200 priced_page" "''https://example.com/rower''" start_world ?resp "''.price''"
      ?node DEFAULT_REGEX "''inner_text''" 1299 "Some ''Rower''" priced_page 0 0]
  note t2 = selector_takes_precedence [of default_config sample_library
      "replying 200 priced_page" "''https://example.com/rower''" start_world ?resp "''.cost''"
      ?node DEFAULT_REGEX "''inner_text''" 0 "Some ''Rower''" priced_page 999 0]
  note t3 = selector_takes_precedence [of default_config sample_library
      "replying 200 priced_page" "''https://www.onepeloton.com/row''" start_world ?resp "''.cost''"
      ?node DEFAULT_REGEX "''inner_text''" 0 "Some ''Row''" ?row 0 3295]
  from t1 f s n have r1: "fst (extract_price default_config sample_library
      (replying 200 priced_page) ''https://example.com/rower'' ''.price'' ''inner_text''
      DEFAULT_REGEX (Some ''Rower'') start_world) = Inr 1299"
    by simp
  from t2 c j have r2: "extract_page default_config sample_library ''https://example.com/rower''
      ''.cost'' ''inner_text'' DEFAULT_REGEX (Some ''Rower'') priced_page = Inr 999"
    by blast
  from t3 sr p have r3: "extract_page default_config sample_library
      ''https://www.onepeloton.com/row'' ''.cost'' ''inner_text'' DEFAULT_REGEX (Some ''Row'')
      ?row = Inr 3295"
    by blast
  from s have s': "map_option get_text (select_one priced_page ''.price'') = Some ''$1,299.00''"
    by simp
  from f s' n j r1 c r2 p r3 show ?thesis by blast
qed

section \<open>Retry and backoff\<close>

lemma backoff_sleeps_append [simp]:
  "backoff_sleeps (xs @ ys) = backoff_sleeps xs @ backoff_sleeps ys"
  by (simp add: backoff_sleeps_def)

lemma request_times_append [simp]:
  "request_times (xs @ ys) = request_times xs @ request_times ys"
  by (simp add: request_times_def)

lemma request_targets_append [simp]:
  "request_targets (xs @ ys) = request_targets xs @ request_targets ys"
  by (simp add: request_targets_def)

lemma throttle_trace:
  "backoff_sleeps (trace (throttle lib j url st)) = backoff_sleeps (trace st)"
  "request_times (trace (throttle lib j url st)) = request_times (trace st)"
  "request_targets (trace (throttle lib j url st)) = request_targets (trace st)"
  by (simp_all add: throttle_def sleep_def Let_def backoff_sleeps_def request_times_def
      request_targets_def)

lemma min_double:
  fixes d :: rat
  assumes "0 \<le> d"
  shows "min (min (d * 2) 30 * 2 ^ k) 30 = min (d * 2 ^ Suc k) 30"
proof (cases "d * 2 \<le> 30")
  case True
  then have "min (d * 2) 30 = d * 2" by (rule min.absorb1)
  then show ?thesis by (simp add: mult.assoc)
next
  case False
  then have big: "30 < d * 2" by simp
  then have m: "min (d * 2) 30 = 30" by (simp add: min.absorb2)
  have one: "(1::rat) \<le> 2 ^ k" by simp
  have "30 * 1 \<le> (30::rat) * 2 ^ k" using one by (rule mult_left_mono) simp
  then have a: "min (30 * 2 ^ k) 30 = (30::rat)" by (simp add: min.absorb2)
  have "0 \<le> d * 2" using assms by simp
  then have "d * 2 * 1 \<le> d * 2 * 2 ^ k" using one by (intro mult_left_mono)
  with big have "30 \<le> d * 2 * 2 ^ k" by linarith
  then have "min (d * 2 * 2 ^ k) 30 = 30" by (rule min.absorb2)
  then have b: "min (d * 2 ^ Suc k) 30 = 30" by (simp add: mult.assoc)
  show ?thesis unfolding m a b ..
qed

lemma http_loop_all_retryable:
  assumes "\<forall>a \<in> set as. \<exists>r. reply (env a) = Some r \<and> retryable r" "0 \<le> d" "d \<le> 30"
  shows "fst (http_loop cfg lib env url as d st) = Inl (RetriesExhausted MAX_TRIES url)
     \<and> backoff_sleeps (trace (snd (http_loop cfg lib env url as d st)))
         = backoff_sleeps (trace st)
           @ map (\<lambda>k. min (d * 2 ^ k) 30 + backoff_jitter (env (as ! k))) [0..<length as]
     \<and> request_targets (trace (snd (http_loop cfg lib env url as d st)))
         = request_targets (trace st) @ replicate (length as) (maybe_proxy cfg url)"
  using assms
proof (induction as arbitrary: d st)
  case Nil
  then show ?case by simp
next
  case (Cons a as)
  from Cons.prems obtain r where r: "reply (env a) = Some r" "retryable r" by auto
  let ?st1 = "throttle lib (throttle_jitter (env a)) url st"
  let ?st2 = "?st1\<lparr>clock := clock ?st1 + duration (env a),
                      trace := trace ?st1 @ [Request (maybe_proxy cfg url) (clock ?st1)]\<rparr>"
  let ?w = "d + backoff_jitter (env a)"
  let ?st3 = "sleep (BackoffSleep ?w) ?w ?st2"
  let ?d' = "min (d * 2) 30"
  have step: "http_loop cfg lib env url (a # as) d st = http_loop cfg lib env url as ?d' ?st3"
    using r by (auto simp: Let_def retryable_def)
  have d': "0 \<le> ?d'" "?d' \<le> 30" using Cons.prems(2) by simp_all
  from Cons.prems(1) have rest: "\<forall>a \<in> set as. \<exists>r. reply (env a) = Some r \<and> retryable r"
    by simp
  note IH = Cons.IH [OF rest d', of ?st3]
  have tr3: "backoff_sleeps (trace ?st3) = backoff_sleeps (trace st) @ [?w]"
    "request_targets (trace ?st3) = request_targets (trace st) @ [maybe_proxy cfg url]"
    by (simp_all add: sleep_def throttle_trace)
      (simp_all add: backoff_sleeps_def request_targets_def)
  have m: "map (\<lambda>k. min (d * 2 ^ k) 30 + backoff_jitter (env ((a # as) ! k))) [0..<length (a # as)]
      = (min d 30 + backoff_jitter (env a))
        # map (\<lambda>k. min (?d' * 2 ^ k) 30 + backoff_jitter (env (as ! k))) [0..<length as]"
    using Cons.prems(2) by (simp add: map_upt_Suc min_double del: upt_Suc power_Suc)
  have d0: "min d 30 = d" using Cons.prems(3) by (rule min.absorb1)
  show ?case
    unfolding step m d0 using IH tr3
    by (simp del: upt_Suc)
qed

lemma http_loop_final:
  assumes "\<forall>r. reply (env a) = Some r \<longrightarrow> \<not> retryable r"
  shows "fst (http_loop cfg lib env url (a # rest) d st) = final_result (env a)
     \<and> backoff_sleeps (trace (snd (http_loop cfg lib env url (a # rest) d st)))
         = backoff_sleeps (trace st)
     \<and> request_targets (trace (snd (http_loop cfg lib env url (a # rest) d st)))
         = request_targets (trace st) @ [maybe_proxy cfg url]"
proof (cases "reply (env a)")
  case None
  then show ?thesis
    by (simp add: Let_def final_result_def throttle_trace)
      (simp add: backoff_sleeps_def request_targets_def)
next
  case (Some r)
  with assms have "\<not> retryable r" by simp
  with Some show ?thesis
    by (auto simp: Let_def final_result_def retryable_def throttle_trace split: option.splits)
      (simp_all add: backoff_sleeps_def request_targets_def)
qed

lemma http_loop_retry_step:
  assumes "reply (env a) = Some r" "retryable r"
  shows "http_loop cfg lib env url (a # as) d st =
     http_loop cfg lib env url as (min (d * 2) 30)
       (sleep (BackoffSleep (d + backoff_jitter (env a))) (d + backoff_jitter (env a))
          ((throttle lib (throttle_jitter (env a)) url st)
             \<lparr>clock := clock (throttle lib (throttle_jitter (env a)) url st) + duration (env a),
              trace := trace (throttle lib (throttle_jitter (env a)) url st)
                 @ [Request (maybe_proxy cfg url)
                      (clock (throttle lib (throttle_jitter (env a)) url st))]\<rparr>))"
  using assms by (auto simp: Let_def retryable_def)

lemma http_loop_decided_after:
  assumes "\<forall>a \<in> set pre. \<exists>r. reply (env a) = Some r \<and> retryable r" "0 \<le> d" "d \<le> 30"
    "\<forall>r. reply (env a) = Some r \<longrightarrow> \<not> retryable r"
  shows "fst (http_loop cfg lib env url (pre @ a # rest) d st) = final_result (env a)
     \<and> backoff_sleeps (trace (snd (http_loop cfg lib env url (pre @ a # rest) d st)))
         = backoff_sleeps (trace st)
           @ map (\<lambda>k. min (d * 2 ^ k) 30 + backoff_jitter (env (pre ! k))) [0..<length pre]
     \<and> request_targets (trace (snd (http_loop cfg lib env url (pre @ a # rest) d st)))
         = request_targets (trace st) @ replicate (Suc (length pre)) (maybe_proxy cfg url)"
  using assms(1-3)
proof (induction pre arbitrary: d st)
  case Nil
  then show ?case using http_loop_final [where env = env and a = a, of cfg lib url rest d st] assms(4) by simp
next
  case (Cons b pre)
  from Cons.prems obtain r where r: "reply (env b) = Some r" "retryable r" by auto
  let ?st1 = "throttle lib (throttle_jitter (env b)) url st"
  let ?st2 = "?st1\<lparr>clock := clock ?st1 + duration (env b),
                      trace := trace ?st1 @ [Request (maybe_proxy cfg url) (clock ?st1)]\<rparr>"
  let ?w = "d + backoff_jitter (env b)"
  let ?st3 = "sleep (BackoffSleep ?w) ?w ?st2"
  let ?d' = "min (d * 2) 30"
  have step: "http_loop cfg lib env url ((b # pre) @ a # rest) d st
      = http_loop cfg lib env url (pre @ a # rest) ?d' ?st3"
    using http_loop_retry_step [where env = env and a = b and r = r] r by simp
  have d': "0 \<le> ?d'" "?d' \<le> 30" using Cons.prems(2) by simp_all
  from Cons.prems(1) have rest: "\<forall>a \<in> set pre. \<exists>r. reply (env a) = Some r \<and> retryable r"
    by simp
  note IH = Cons.IH [OF rest d', of ?st3]
  have tr3: "backoff_sleeps (trace ?st3) = backoff_sleeps (trace st) @ [?w]"
    "request_targets (trace ?st3) = request_targets (trace st) @ [maybe_proxy cfg url]"
    by (simp_all add: sleep_def throttle_trace)
      (simp_all add: backoff_sleeps_def request_targets_def)
  have m: "map (\<lambda>k. min (d * 2 ^ k) 30 + backoff_jitter (env ((b # pre) ! k))) [0..<length (b # pre)]
      = (min d 30 + backoff_jitter (env b))
        # map (\<lambda>k. min (?d' * 2 ^ k) 30 + backoff_jitter (env (pre ! k))) [0..<length pre]"
    using Cons.prems(2) by (simp add: map_upt_Suc min_double del: upt_Suc power_Suc)
  have d0: "min d 30 = d" using Cons.prems(3) by (rule min.absorb1)
  show ?case
    unfolding step m d0 using IH tr3
    by (simp del: upt_Suc add: replicate_append_same)
qed

lemma http_loop_request_bound:
  "length (request_targets (trace (snd (http_loop cfg lib env url as d st))))
     \<le> length (request_targets (trace st)) + length as"
proof (induction as arbitrary: d st)
  case Nil
  then show ?case by simp
next
  case (Cons a as)
  let ?st1 = "throttle lib (throttle_jitter (env a)) url st"
  let ?st2 = "?st1\<lparr>clock := clock ?st1 + duration (env a),
                      trace := trace ?st1 @ [Request (maybe_proxy cfg url) (clock ?st1)]\<rparr>"
  let ?w = "d + backoff_jitter (env a)"
  let ?st3 = "sleep (BackoffSleep ?w) ?w ?st2"
  have tr3: "length (request_targets (trace ?st3)) = Suc (length (request_targets (trace st)))"
    "length (request_targets (trace ?st2)) = Suc (length (request_targets (trace st)))"
    by (simp_all add: sleep_def throttle_trace)
      (simp_all add: backoff_sleeps_def request_targets_def)
  show ?case
  proof (cases "\<exists>r. reply (env a) = Some r \<and> retryable r")
    case True
    then obtain r where r: "reply (env a) = Some r" "retryable r" by auto
    have "http_loop cfg lib env url (a # as) d st
        = http_loop cfg lib env url as (min (d * 2) 30) ?st3"
      using http_loop_retry_step [where env = env and a = a and r = r] r by simp
    then show ?thesis
      using Cons.IH [of "min (d * 2) 30" ?st3] tr3 by simp
  next
    case False
    then have "\<forall>r. reply (env a) = Some r \<longrightarrow> \<not> retryable r" by simp
    with http_loop_final [where env = env and a = a, of cfg lib url as d st] show ?thesis by simp
  qed
qed

lemma final_result_not_retryable:
  assumes "reply e = Some r" "\<not> retryable r"
  shows "final_result e =
     (if 400 \<le> status_code r \<and> status_code r < 500 then Inl (HTTPError (status_code r))
      else Inr r)"
  using assms by (auto simp: final_result_def raise_for_status_def retryable_def)

text \<open>
  C6 (amended). A reply with status 429 or 500 to 599 makes \<open>http_get_with_backoff\<close> sleep
  and try again: the sleeps are 2, 4 and 8 seconds plus the jitter drawn, following a
  delay that starts at 2, doubles and is capped at 30, and after three such replies the
  call raises the error that names \<open>MAX_TRIES\<close> and the URL. The first reply with any
  other status ends the call without a further request: a status from 400 to 499 raises,
  every other status is returned. No call issues more than three requests.
\<close>

theorem http_get_with_backoff_retries:
  "((\<forall>i \<in> set [1..<MAX_TRIES + 1]. \<exists>r. reply (env i) = Some r \<and> retryable r) \<longrightarrow>
      fst (http_get_with_backoff cfg lib env url st) = Inl (RetriesExhausted 3 url)
      \<and> backoff_sleeps (trace (snd (http_get_with_backoff cfg lib env url st)))
          = backoff_sleeps (trace st)
            @ [2 + backoff_jitter (env 1), 4 + backoff_jitter (env 2), 8 + backoff_jitter (env 3)]
      \<and> request_targets (trace (snd (http_get_with_backoff cfg lib env url st)))
          = request_targets (trace st) @ replicate 3 (maybe_proxy cfg url))
   \<and> (k \<in> {1, 2, 3}
        \<and> (\<forall>i. 1 \<le> i \<and> i < k \<longrightarrow> (\<exists>r. reply (env i) = Some r \<and> retryable r))
        \<and> reply (env k) = Some r \<and> \<not> retryable r \<longrightarrow>
      fst (http_get_with_backoff cfg lib env url st)
          = (if 400 \<le> status_code r \<and> status_code r < 500
             then Inl (HTTPError (status_code r)) else Inr r)
      \<and> request_targets (trace (snd (http_get_with_backoff cfg lib env url st)))
          = request_targets (trace st) @ replicate k (maybe_proxy cfg url)
      \<and> backoff_sleeps (trace (snd (http_get_with_backoff cfg lib env url st)))
          = backoff_sleeps (trace st)
            @ map (\<lambda>i. 2 * 2 ^ i + backoff_jitter (env (Suc i))) [0..<k - 1])
   \<and> ((\<forall>a \<in> set as. \<exists>r. reply (env a) = Some r \<and> retryable r) \<longrightarrow>
      backoff_sleeps (trace (snd (http_loop cfg lib env url as 2 st)))
          = backoff_sleeps (trace st)
            @ map (\<lambda>n. min (2 * 2 ^ n) 30 + backoff_jitter (env (as ! n))) [0..<length as])
   \<and> length (request_targets (trace (snd (http_get_with_backoff cfg lib env url st))))
        \<le> length (request_targets (trace st)) + 3"
proof (intro conjI impI)
  have hg: "http_get_with_backoff cfg lib env url st = http_loop cfg lib env url [1, 2, 3] 2 st"
    by (simp only: http_get_with_backoff_def attempts_list)
  {
  assume all: "\<forall>i \<in> set [1..<MAX_TRIES + 1]. \<exists>r. reply (env i) = Some r \<and> retryable r"
  then have all': "\<forall>i \<in> set [1, 2, 3]. \<exists>r. reply (env i) = Some r \<and> retryable r"
    by (simp only: attempts_list)
  have d: "(0::rat) \<le> 2" "(2::rat) \<le> 30" by simp_all
  note A = http_loop_all_retryable [where env = env and as = "[1, 2, 3]", OF all' d,
      of cfg lib url st]
  have m: "map (\<lambda>k. min (2 * 2 ^ k) 30 + backoff_jitter (env ([1, 2, 3] ! k))) [0..<length [1, 2, 3 :: nat]]
      = [2 + backoff_jitter (env 1), 4 + backoff_jitter (env 2), 8 + backoff_jitter (env 3)]"
    by (simp add: upt_rec numeral_3_eq_3)
  from A show "fst (http_get_with_backoff cfg lib env url st) = Inl (RetriesExhausted 3 url)"
    unfolding hg by (simp del: http_loop.simps add: MAX_TRIES_def numeral_2_eq_2 numeral_3_eq_3)
  from A m show "backoff_sleeps (trace (snd (http_get_with_backoff cfg lib env url st)))
          = backoff_sleeps (trace st)
            @ [2 + backoff_jitter (env 1), 4 + backoff_jitter (env 2), 8 + backoff_jitter (env 3)]"
    unfolding hg by (simp del: http_loop.simps add: numeral_2_eq_2 numeral_3_eq_3)
  from A show "request_targets (trace (snd (http_get_with_backoff cfg lib env url st)))
          = request_targets (trace st) @ replicate 3 (maybe_proxy cfg url)"
    unfolding hg by (simp del: http_loop.simps add: numeral_2_eq_2 numeral_3_eq_3)
  }
  {
  assume h: "k \<in> {1, 2, 3}
        \<and> (\<forall>i. 1 \<le> i \<and> i < k \<longrightarrow> (\<exists>r. reply (env i) = Some r \<and> retryable r))
        \<and> reply (env k) = Some r \<and> \<not> retryable r"
  then have fin: "\<forall>r. reply (env k) = Some r \<longrightarrow> \<not> retryable r" by simp
  from h have fr: "final_result (env k) =
     (if 400 \<le> status_code r \<and> status_code r < 500 then Inl (HTTPError (status_code r))
      else Inr r)"
    by (intro final_result_not_retryable) simp_all
  have d: "(0::rat) \<le> 2" "(2::rat) \<le> 30" by simp_all
  from h consider "k = 1" | "k = 2" | "k = 3" by auto
  then have "fst (http_get_with_backoff cfg lib env url st) = final_result (env k)
      \<and> request_targets (trace (snd (http_get_with_backoff cfg lib env url st)))
          = request_targets (trace st) @ replicate k (maybe_proxy cfg url)
      \<and> backoff_sleeps (trace (snd (http_get_with_backoff cfg lib env url st)))
          = backoff_sleeps (trace st)
            @ map (\<lambda>i. 2 * 2 ^ i + backoff_jitter (env (Suc i))) [0..<k - 1]"
  proof cases
    case 1
    have pre: "\<forall>a \<in> set ([]::nat list). \<exists>r. reply (env a) = Some r \<and> retryable r" by simp
    from http_loop_decided_after [where env = env and pre = "[]" and a = 1 and rest = "[2, 3]",
        OF pre d, of cfg lib url st] fin 1
    show ?thesis unfolding hg by (simp del: http_loop.simps add: numeral_2_eq_2 numeral_3_eq_3)
  next
    case 2
    with h have pre: "\<forall>a \<in> set [1::nat]. \<exists>r. reply (env a) = Some r \<and> retryable r" by simp
    from http_loop_decided_after [where env = env and pre = "[1]" and a = 2 and rest = "[3]",
        OF pre d, of cfg lib url st] fin 2
    show ?thesis unfolding hg by (simp del: http_loop.simps add: numeral_2_eq_2 numeral_3_eq_3)
  next
    case 3
    with h have "\<exists>r. reply (env 1) = Some r \<and> retryable r"
      "\<exists>r. reply (env 2) = Some r \<and> retryable r" by simp_all
    then have pre: "\<forall>a \<in> set [1, 2::nat]. \<exists>r. reply (env a) = Some r \<and> retryable r" by simp
    from http_loop_decided_after [where env = env and pre = "[1, 2]" and a = 3 and rest = "[]",
        OF pre d, of cfg lib url st] fin 3
    show ?thesis unfolding hg by (simp del: http_loop.simps add: upt_rec numeral_2_eq_2 numeral_3_eq_3)
  qed
  with fr show "fst (http_get_with_backoff cfg lib env url st)
          = (if 400 \<le> status_code r \<and> status_code r < 500
             then Inl (HTTPError (status_code r)) else Inr r)"
    and "request_targets (trace (snd (http_get_with_backoff cfg lib env url st)))
          = request_targets (trace st) @ replicate k (maybe_proxy cfg url)"
    and "backoff_sleeps (trace (snd (http_get_with_backoff cfg lib env url st)))
          = backoff_sleeps (trace st)
            @ map (\<lambda>i. 2 * 2 ^ i + backoff_jitter (env (Suc i))) [0..<k - 1]"
    by simp_all
  }
  {
  assume all: "\<forall>a \<in> set as. \<exists>r. reply (env a) = Some r \<and> retryable r"
  have d: "(0::rat) \<le> 2" "(2::rat) \<le> 30" by simp_all
  from http_loop_all_retryable [where env = env and as = as, OF all d, of cfg lib url st]
  show "backoff_sleeps (trace (snd (http_loop cfg lib env url as 2 st)))
          = backoff_sleeps (trace st)
            @ map (\<lambda>n. min (2 * 2 ^ n) 30 + backoff_jitter (env (as ! n))) [0..<length as]"
    by simp
  }
  from http_loop_request_bound [of cfg lib env url "[1, 2, 3]" 2 st]
  show "length (request_targets (trace (snd (http_get_with_backoff cfg lib env url st))))
        \<le> length (request_targets (trace st)) + 3"
    unfolding hg by (simp del: http_loop.simps add: numeral_2_eq_2 numeral_3_eq_3)
qed

theorem http_get_with_backoff_retries_witness:
  "fst (http_get_with_backoff default_config sample_library (replying_seq [503, 429, 500])
         ''https://example.com/rower'' start_world)
     = Inl (RetriesExhausted 3 ''https://example.com/rower'')
   \<and> backoff_sleeps (trace (snd (http_get_with_backoff default_config sample_library
         (replying_seq [503, 429, 500]) ''https://example.com/rower'' start_world)))
     = [2, 4, 8]
   \<and> fst (http_get_with_backoff default_config sample_library (replying_seq [429, 404])
         ''https://example.com/rower'' start_world)
     = Inl (HTTPError 404)
   \<and> request_targets (trace (snd (http_get_with_backoff default_config sample_library
         (replying_seq [429, 404]) ''https://example.com/rower'' start_world)))
     = [''https://example.com/rower'', ''https://example.com/rower'']
   \<and> backoff_sleeps (trace (snd (http_get_with_backoff default_config sample_library
         (replying_seq [429, 404]) ''https://example.com/rower'' start_world)))
     = [2]
   \<and> backoff_sleeps (trace (snd (http_loop default_config sample_library
         (replying_seq [500, 500, 500, 500, 500, 500]) ''https://example.com/rower''
         [1, 2, 3, 4, 5, 6] 2 start_world)))
     = [2, 4, 8, 16, 30, 30]"
proof -
  let ?u = "''https://example.com/rower''"
  let ?e1 = "replying_seq [503, 429, 500]"
  let ?e2 = "replying_seq [429, 404]"
  let ?e3 = "replying_seq [500, 500, 500, 500, 500, 500]"
  let ?r = "\<lparr>status_code = 404, body = \<lparr>html = [], select_one = (\<lambda>sel. None), ld_json = []\<rparr>\<rparr>"
  have tr0: "backoff_sleeps (trace start_world) = []" "request_targets (trace start_world) = []"
    by (simp_all add: start_world_def backoff_sleeps_def request_targets_def)
  have mp: "maybe_proxy default_config ?u = ?u"
    by (simp add: maybe_proxy_def default_config_def)
  have h1: "\<forall>i \<in> set [1..<MAX_TRIES + 1]. \<exists>r. reply (?e1 i) = Some r \<and> retryable r"
    unfolding attempts_list by (simp add: replying_seq_def retryable_def)
  have h2: "(2::nat) \<in> {1, 2, 3}
      \<and> (\<forall>i. 1 \<le> i \<and> i < (2::nat) \<longrightarrow> (\<exists>r. reply (?e2 i) = Some r \<and> retryable r))
      \<and> reply (?e2 2) = Some ?r \<and> \<not> retryable ?r"
  proof (intro conjI allI impI)
    fix i :: nat assume "1 \<le> i \<and> i < 2"
    then have "i = 1" by simp
    then show "\<exists>r. reply (?e2 i) = Some r \<and> retryable r"
      by (simp add: replying_seq_def retryable_def)
  qed (simp_all add: replying_seq_def retryable_def)
  have h3: "\<forall>a \<in> set [1, 2, 3, 4, 5, 6 :: nat]. \<exists>r. reply (?e3 a) = Some r \<and> retryable r"
    by (simp add: replying_seq_def retryable_def)
  note t1 = http_get_with_backoff_retries [of ?e1 default_config sample_library ?u start_world
      2 ?r "[]"]
  note t2 = http_get_with_backoff_retries [of ?e2 default_config sample_library ?u start_world
      2 ?r "[]"]
  note t3 = http_get_with_backoff_retries [of ?e3 default_config sample_library ?u start_world
      2 ?r "[1, 2, 3, 4, 5, 6]"]
  from t1 h1 have a1: "fst (http_get_with_backoff default_config sample_library ?e1 ?u start_world)
      = Inl (RetriesExhausted 3 ?u)"
    and a2: "backoff_sleeps (trace (snd (http_get_with_backoff default_config sample_library
        ?e1 ?u start_world)))
      = backoff_sleeps (trace start_world)
        @ [2 + backoff_jitter (?e1 1), 4 + backoff_jitter (?e1 2), 8 + backoff_jitter (?e1 3)]"
    by blast+
  from t2 h2 have b1: "fst (http_get_with_backoff default_config sample_library ?e2 ?u start_world)
      = (if 400 \<le> status_code ?r \<and> status_code ?r < 500
         then Inl (HTTPError (status_code ?r)) else Inr ?r)"
    and b2: "request_targets (trace (snd (http_get_with_backoff default_config sample_library
        ?e2 ?u start_world)))
      = request_targets (trace start_world) @ replicate 2 (maybe_proxy default_config ?u)"
    and b3: "backoff_sleeps (trace (snd (http_get_with_backoff default_config sample_library
        ?e2 ?u start_world)))
      = backoff_sleeps (trace start_world)
        @ map (\<lambda>i. 2 * 2 ^ i + backoff_jitter (?e2 (Suc i))) [0..<2 - 1]"
    by blast+
  from t3 h3 have c1: "backoff_sleeps (trace (snd (http_loop default_config sample_library
        ?e3 ?u [1, 2, 3, 4, 5, 6] 2 start_world)))
      = backoff_sleeps (trace start_world)
        @ map (\<lambda>n. min (2 * 2 ^ n) 30 + backoff_jitter (?e3 ([1, 2, 3, 4, 5, 6] ! n)))
            [0..<length [1, 2, 3, 4, 5, 6 :: nat]]"
    by blast
  have m: "map (\<lambda>n. min (2 * 2 ^ n) 30 + backoff_jitter (?e3 ([1, 2, 3, 4, 5, 6] ! n)))
            [0..<length [1, 2, 3, 4, 5, 6 :: nat]] = [2, 4, 8, 16, 30, 30]"
    by (simp add: upt_rec replying_seq_def)
  from a2 have a2': "backoff_sleeps (trace (snd (http_get_with_backoff default_config
        sample_library ?e1 ?u start_world))) = [2, 4, 8]"
    by (simp add: tr0 replying_seq_def)
  from b1 have b1': "fst (http_get_with_backoff default_config sample_library ?e2 ?u start_world)
      = Inl (HTTPError 404)"
    by simp
  from b2 have b2': "request_targets (trace (snd (http_get_with_backoff default_config
        sample_library ?e2 ?u start_world))) = [?u, ?u]"
    by (simp add: tr0 mp numeral_2_eq_2)
  from b3 have b3': "backoff_sleeps (trace (snd (http_get_with_backoff default_config
        sample_library ?e2 ?u start_world))) = [2]"
    by (simp add: tr0 replying_seq_def)
  from c1 m have c1': "backoff_sleeps (trace (snd (http_loop default_config sample_library
        ?e3 ?u [1, 2, 3, 4, 5, 6] 2 start_world))) = [2, 4, 8, 16, 30, 30]"
    by (simp only: tr0 append_Nil)
  from a1 a2' b1' b2' b3' c1' show ?thesis by (simp only: simp_thms)
qed

text \<open>
  C6 as first stated fails for a status that is neither 2xx nor retried nor in 400 to
  599: a reply with status 304 is handed back to the caller as a success.
\<close>

theorem http_get_with_backoff_returns_304:
  "fst (http_get_with_backoff default_config sample_library (replying 304 (text_page []))
         ''https://example.com/rower'' start_world)
     = Inr \<lparr>status_code = 304, body = text_page []\<rparr>"
  unfolding http_get_with_backoff_def attempts_list
  by (subst http_loop_decided [where r = "\<lparr>status_code = 304, body = text_page []\<rparr>"])
    (simp_all add: replying_def retryable_def raise_for_status_def)

section \<open>Pacing per domain\<close>

lemma throttle_clock:
  "clock (throttle lib j url st) =
     (if 0 < MIN_DOMAIN_GAP - (clock st - last_fetch lib st url) + j
      then clock st + (MIN_DOMAIN_GAP - (clock st - last_fetch lib st url) + j)
      else clock st)"
  by (simp add: throttle_def sleep_def Let_def last_fetch_def)

lemma throttle_sleep_trace:
  "trace (throttle lib j url st) =
     (if 0 < MIN_DOMAIN_GAP - (clock st - last_fetch lib st url) + j
      then trace st @ [ThrottleSleep (MIN_DOMAIN_GAP - (clock st - last_fetch lib st url) + j)]
      else trace st)"
  by (simp add: throttle_def sleep_def Let_def last_fetch_def)

lemma throttle_LAST_FETCH:
  "LAST_FETCH (throttle lib j url st)
     = (LAST_FETCH st)(netloc lib url \<mapsto> clock (throttle lib j url st))"
  by (simp add: throttle_def sleep_def Let_def)

lemma throttle_last_fetch:
  "last_fetch lib (throttle lib j url st) url = clock (throttle lib j url st)"
  by (simp add: last_fetch_def throttle_LAST_FETCH)

lemma throttle_gap:
  "last_fetch lib st url + MIN_DOMAIN_GAP + j \<le> clock (throttle lib j url st)"
  by (simp add: throttle_clock)

lemma throttle_clock_mono: "clock st \<le> clock (throttle lib j url st)"
  by (simp add: throttle_clock)

lemma spaced_weaken: "spaced g (t # ts) \<Longrightarrow> g \<le> t - s \<Longrightarrow> spaced g (s # t # ts)"
  by simp

lemma http_loop_spacing:
  assumes "\<forall>n. - 5 \<le> throttle_jitter (env n)"
  shows "\<exists>new. request_times (trace (snd (http_loop cfg lib env url as d st)))
               = request_times (trace st) @ new
           \<and> length new \<le> length as \<and> (as \<noteq> [] \<longrightarrow> new \<noteq> [])
           \<and> spaced (MIN_DOMAIN_GAP - 5) (last_fetch lib st url # new)
           \<and> last_fetch lib (snd (http_loop cfg lib env url as d st)) url
               = last (last_fetch lib st url # new)"
proof (induction as arbitrary: d st)
  case Nil
  show ?case by simp
next
  case (Cons a as)
  let ?st1 = "throttle lib (throttle_jitter (env a)) url st"
  let ?st2 = "?st1\<lparr>clock := clock ?st1 + duration (env a),
                      trace := trace ?st1 @ [Request (maybe_proxy cfg url) (clock ?st1)]\<rparr>"
  let ?w = "d + backoff_jitter (env a)"
  let ?st3 = "sleep (BackoffSleep ?w) ?w ?st2"
  let ?t = "clock ?st1"
  have gap: "MIN_DOMAIN_GAP - 5 \<le> ?t - last_fetch lib st url"
    using throttle_gap [of lib st url "throttle_jitter (env a)"] assms [rule_format, of a]
    by linarith
  have rt2: "request_times (trace ?st2) = request_times (trace st) @ [?t]"
    by (simp add: throttle_trace) (simp add: request_times_def)
  have lf2: "last_fetch lib ?st2 url = ?t"
    using throttle_last_fetch [of lib "throttle_jitter (env a)" url st]
    by (simp add: last_fetch_def)
  have rt3: "request_times (trace ?st3) = request_times (trace st) @ [?t]"
    using rt2 by (simp add: sleep_def) (simp add: request_times_def)
  have lf3: "last_fetch lib ?st3 url = ?t"
    using lf2 by (simp add: last_fetch_def sleep_def)
  show ?case
  proof (cases "\<exists>r. reply (env a) = Some r \<and> retryable r")
    case True
    then obtain r where r: "reply (env a) = Some r" "retryable r" by auto
    have step: "http_loop cfg lib env url (a # as) d st
        = http_loop cfg lib env url as (min (d * 2) 30) ?st3"
      using http_loop_retry_step [where env = env and a = a and r = r] r by simp
    from Cons.IH [of "min (d * 2) 30" ?st3] obtain new where new:
      "request_times (trace (snd (http_loop cfg lib env url as (min (d * 2) 30) ?st3)))
         = request_times (trace ?st3) @ new"
      "length new \<le> length as"
      "spaced (MIN_DOMAIN_GAP - 5) (last_fetch lib ?st3 url # new)"
      "last_fetch lib (snd (http_loop cfg lib env url as (min (d * 2) 30) ?st3)) url
         = last (last_fetch lib ?st3 url # new)"
      by blast
    show ?thesis
      unfolding step
      by (rule exI [of _ "?t # new"]) (use new rt3 lf3 gap in simp)
  next
    case False
    then have fin: "\<forall>r. reply (env a) = Some r \<longrightarrow> \<not> retryable r" by simp
    have s2: "snd (http_loop cfg lib env url (a # as) d st) = ?st2"
      using fin by (auto simp: Let_def retryable_def split: option.splits)
    show ?thesis
      unfolding s2
      by (rule exI [of _ "[?t]"]) (use rt2 lf2 gap in simp)
  qed
qed

lemma http_loop_LAST_FETCH_some:
  "as \<noteq> [] \<or> LAST_FETCH st (netloc lib url) \<noteq> None \<Longrightarrow>
   LAST_FETCH (snd (http_loop cfg lib env url as d st)) (netloc lib url) \<noteq> None"
proof (induction as arbitrary: d st)
  case Nil
  then show ?case by simp
next
  case (Cons a as)
  let ?st1 = "throttle lib (throttle_jitter (env a)) url st"
  let ?st2 = "?st1\<lparr>clock := clock ?st1 + duration (env a),
                      trace := trace ?st1 @ [Request (maybe_proxy cfg url) (clock ?st1)]\<rparr>"
  let ?w = "d + backoff_jitter (env a)"
  let ?st3 = "sleep (BackoffSleep ?w) ?w ?st2"
  have l2: "LAST_FETCH ?st2 (netloc lib url) \<noteq> None"
    by (simp add: throttle_LAST_FETCH)
  then have l3: "LAST_FETCH ?st3 (netloc lib url) \<noteq> None"
    by (simp add: sleep_def)
  show ?case
  proof (cases "\<exists>r. reply (env a) = Some r \<and> retryable r")
    case True
    then obtain r where r: "reply (env a) = Some r" "retryable r" by auto
    have step: "http_loop cfg lib env url (a # as) d st
        = http_loop cfg lib env url as (min (d * 2) 30) ?st3"
      using http_loop_retry_step [where env = env and a = a and r = r] r by simp
    show ?thesis unfolding step using Cons.IH [of ?st3 "min (d * 2) 30"] l3 by blast
  next
    case False
    then have fin: "\<forall>r. reply (env a) = Some r \<longrightarrow> \<not> retryable r" by simp
    have s2: "snd (http_loop cfg lib env url (a # as) d st) = ?st2"
      using fin by (auto simp: Let_def retryable_def split: option.splits)
    show ?thesis unfolding s2 using l2 .
  qed
qed

text \<open>
  C9. Before every attempt, retries included, the fetcher takes the domain of the URL
  and compares the time since the domain's last recorded attempt with \<open>MIN_DOMAIN_GAP\<close>
  (3 seconds) plus the jitter drawn from [-5, 5]: when the difference \<open>wait\<close> is positive it
  sleeps exactly \<open>wait\<close>, otherwise it does not sleep; then it records the clock as the
  domain's last fetch, before the request is issued and so whatever the request's
  outcome. Hence each attempt starts at least \<open>MIN_DOMAIN_GAP - 5\<close> after the start of the
  previous attempt to the same domain, and after a call of \<open>http_get_with_backoff\<close>,
  however it ends, the domain's last-fetch time is the start of the call's last attempt.
\<close>

theorem throttle_spacing:
  "(0 < MIN_DOMAIN_GAP - (clock st - last_fetch lib st url) + j \<longrightarrow>
      clock (throttle lib j url st)
        = clock st + (MIN_DOMAIN_GAP - (clock st - last_fetch lib st url) + j)
      \<and> trace (throttle lib j url st)
        = trace st @ [ThrottleSleep (MIN_DOMAIN_GAP - (clock st - last_fetch lib st url) + j)])
   \<and> (\<not> 0 < MIN_DOMAIN_GAP - (clock st - last_fetch lib st url) + j \<longrightarrow>
      clock (throttle lib j url st) = clock st \<and> trace (throttle lib j url st) = trace st)
   \<and> LAST_FETCH (throttle lib j url st) (netloc lib url) = Some (clock (throttle lib j url st))
   \<and> MIN_DOMAIN_GAP = 3
   \<and> (- 5 \<le> j \<longrightarrow>
      MIN_DOMAIN_GAP - 5 \<le> clock (throttle lib j url st) - last_fetch lib st url)
   \<and> ((\<forall>n. - 5 \<le> throttle_jitter (env n) \<and> throttle_jitter (env n) \<le> 5) \<longrightarrow>
      spaced (MIN_DOMAIN_GAP - 5)
        (last_fetch lib st url
         # drop (length (request_times (trace st)))
             (request_times (trace (snd (http_get_with_backoff cfg lib env url st)))))
      \<and> length (request_times (trace st))
          < length (request_times (trace (snd (http_get_with_backoff cfg lib env url st))))
      \<and> LAST_FETCH (snd (http_get_with_backoff cfg lib env url st)) (netloc lib url)
          = Some (last (request_times (trace (snd (http_get_with_backoff cfg lib env url st))))))"
proof (intro conjI impI)
  assume "0 < MIN_DOMAIN_GAP - (clock st - last_fetch lib st url) + j"
  then show "clock (throttle lib j url st)
        = clock st + (MIN_DOMAIN_GAP - (clock st - last_fetch lib st url) + j)"
    and "trace (throttle lib j url st)
        = trace st @ [ThrottleSleep (MIN_DOMAIN_GAP - (clock st - last_fetch lib st url) + j)]"
    by (simp_all add: throttle_clock throttle_sleep_trace)
next
  assume "\<not> 0 < MIN_DOMAIN_GAP - (clock st - last_fetch lib st url) + j"
  then show "clock (throttle lib j url st) = clock st"
    and "trace (throttle lib j url st) = trace st"
    by (simp_all add: throttle_clock throttle_sleep_trace)
next
  show "LAST_FETCH (throttle lib j url st) (netloc lib url) = Some (clock (throttle lib j url st))"
    by (simp add: throttle_LAST_FETCH)
  show "MIN_DOMAIN_GAP = 3" by (simp add: MIN_DOMAIN_GAP_def)
next
  assume "- 5 \<le> j"
  with throttle_gap [of lib st url j]
  show "MIN_DOMAIN_GAP - 5 \<le> clock (throttle lib j url st) - last_fetch lib st url"
    by linarith
next
  assume h: "\<forall>n. - 5 \<le> throttle_jitter (env n) \<and> throttle_jitter (env n) \<le> 5"
  then have j: "\<forall>n. - 5 \<le> throttle_jitter (env n)" by simp
  let ?st' = "snd (http_get_with_backoff cfg lib env url st)"
  have hg: "http_get_with_backoff cfg lib env url st = http_loop cfg lib env url [1, 2, 3] 2 st"
    by (simp only: http_get_with_backoff_def attempts_list)
  from http_loop_spacing [OF j, of cfg lib url "[1, 2, 3]" 2 st] obtain new where new:
    "request_times (trace ?st') = request_times (trace st) @ new"
    "new \<noteq> []"
    "spaced (MIN_DOMAIN_GAP - 5) (last_fetch lib st url # new)"
    "last_fetch lib ?st' url = last (last_fetch lib st url # new)"
    unfolding hg by auto
  from new(1) have dr: "drop (length (request_times (trace st))) (request_times (trace ?st')) = new"
    by simp
  from new(3) dr show "spaced (MIN_DOMAIN_GAP - 5)
        (last_fetch lib st url
         # drop (length (request_times (trace st))) (request_times (trace ?st')))"
    by simp
  from new(1,2) show "length (request_times (trace st)) < length (request_times (trace ?st'))"
    by simp
  have "LAST_FETCH ?st' (netloc lib url) \<noteq> None"
    unfolding hg by (rule http_loop_LAST_FETCH_some) simp
  then have "LAST_FETCH ?st' (netloc lib url) = Some (last_fetch lib ?st' url)"
    by (auto simp: last_fetch_def)
  with new show "LAST_FETCH ?st' (netloc lib url) = Some (last (request_times (trace ?st')))"
    by simp
qed

theorem throttle_spacing_witness:
  "clock (throttle sample_library 0 ''https://example.com/rower'' start_world) = 1000
   \<and> trace (throttle sample_library 0 ''https://example.com/rower'' start_world) = []
   \<and> clock (throttle sample_library 0 ''https://example.com/rower''
        (throttle sample_library 0 ''https://example.com/rower'' start_world)) = 1003
   \<and> trace (throttle sample_library 0 ''https://example.com/rower''
        (throttle sample_library 0 ''https://example.com/rower'' start_world))
       = [ThrottleSleep 3]
   \<and> request_times (trace (snd (http_get_with_backoff default_config sample_library
        (replying_seq [503, 200]) ''https://example.com/rower'' start_world)))
       = [1000, 1003]
   \<and> spaced (- 2) [0, 1000, 1003]
   \<and> LAST_FETCH (snd (http_get_with_backoff default_config sample_library
        (replying_seq [503, 200]) ''https://example.com/rower'' start_world)) ''example.com''
       = Some 1003"
proof -
  let ?u = "''https://example.com/rower''"
  let ?w1 = "throttle sample_library 0 ?u start_world"
  let ?e = "replying_seq [503, 200]"
  let ?H = "snd (http_get_with_backoff default_config sample_library ?e ?u start_world)"
  have dom: "netloc sample_library ?u = ''example.com''"
    by (simp add: sample_library_def)
  have c0: "clock start_world = 1000" "trace start_world = []"
    "last_fetch sample_library start_world ?u = 0"
    by (simp_all add: start_world_def last_fetch_def)
  note t1 = throttle_spacing [of start_world sample_library ?u 0 ?e default_config]
  have n1: "\<not> 0 < MIN_DOMAIN_GAP - (clock start_world - last_fetch sample_library start_world ?u) + 0"
    by (simp add: c0 MIN_DOMAIN_GAP_def)
  from t1 n1 have a1: "clock ?w1 = clock start_world" "trace ?w1 = trace start_world"
    by blast+
  from t1 have "LAST_FETCH ?w1 (netloc sample_library ?u) = Some (clock ?w1)" by blast
  with a1 have l1: "last_fetch sample_library ?w1 ?u = 1000"
    by (simp add: last_fetch_def c0)
  note t2 = throttle_spacing [of ?w1 sample_library ?u 0 ?e default_config]
  have p2: "0 < MIN_DOMAIN_GAP - (clock ?w1 - last_fetch sample_library ?w1 ?u) + 0"
    by (simp add: a1 c0 l1 MIN_DOMAIN_GAP_def)
  from t2 p2 have a2: "clock (throttle sample_library 0 ?u ?w1)
      = clock ?w1 + (MIN_DOMAIN_GAP - (clock ?w1 - last_fetch sample_library ?w1 ?u) + 0)"
    "trace (throttle sample_library 0 ?u ?w1)
      = trace ?w1 @ [ThrottleSleep (MIN_DOMAIN_GAP - (clock ?w1 - last_fetch sample_library ?w1 ?u) + 0)]"
    by blast+
  have jit: "\<forall>n. - 5 \<le> throttle_jitter (?e n) \<and> throttle_jitter (?e n) \<le> 5"
    by (simp add: replying_seq_def)
  have rt: "request_times (trace ?H) = [1000, 1003]"
    unfolding http_get_with_backoff_def attempts_list
    by (simp add: Let_def throttle_def sleep_def
        replying_seq_def start_world_def sample_library_def raise_for_status_def
        request_times_def MIN_DOMAIN_GAP_def)
  from t1 jit have "spaced (MIN_DOMAIN_GAP - 5)
      (last_fetch sample_library start_world ?u
       # drop (length (request_times (trace start_world))) (request_times (trace ?H)))"
    and lf: "LAST_FETCH ?H (netloc sample_library ?u) = Some (last (request_times (trace ?H)))"
    by blast+
  then have sp: "spaced (- 2) [0, 1000, 1003]"
    by (simp add: rt c0 MIN_DOMAIN_GAP_def request_times_def)
  from lf have l: "LAST_FETCH ?H ''example.com'' = Some 1003"
    by (simp add: rt dom)
  from a1 a2 show ?thesis
    using rt sp l by (simp add: c0 l1 MIN_DOMAIN_GAP_def)
qed

section \<open>Proxy routing and change detection\<close>

text \<open>
  C7. \<open>maybe_proxy\<close> tests whether the text \<open>hydrow.com\<close> occurs anywhere in the URL, not
  whether the URL's domain is \<open>hydrow.com\<close>: with a key configured, a URL on
  \<open>example.com\<close> whose path contains \<open>hydrow.com\<close> is rewritten through the proxy.
\<close>

theorem maybe_proxy_other_domain:
  "maybe_proxy (default_config\<lparr>SCRAPERAPI_KEY := ''k''\<rparr>) ''https://example.com/hydrow.com''
     = ''https://api.scraperapi.com/?api_key=k&url=https%3A%2F%2Fexample.com%2Fhydrow.com''"
  by (simp add: maybe_proxy_def default_config_def quote_def quote_safe_def utf8_def hex_digit_def)

lemma classify_changed:
  "a \<noteq> p \<Longrightarrow> classify cfg (Some p) a =
     (if CHANGE_THRESHOLD_PCT cfg \<le> change_pct p a then Change p a (change_pct p a)
      else MinorChangeIgnored p a (change_pct p a))"
  by (simp add: classify_def Let_def)


lemma process_row_skip:
  "product_url r = [] \<or> price_selector_css r = [] \<Longrightarrow>
   process_row cfg lib (r, env) s = log_only r Skip s"
  by (auto simp: process_row_def Let_def)

lemma process_row_error:
  assumes "product_url r \<noteq> []" "price_selector_css r \<noteq> []"
    "fst (extract_row cfg lib r env (net s)) = Inl e"
  shows "process_row cfg lib (r, env) s
     = (emit r (Error e) (s\<lparr>net := snd (extract_row cfg lib r env (net s))\<rparr>))
         \<lparr>error_count := error_count s + 1\<rparr>"
proof -
  obtain x w where xw: "extract_row cfg lib r env (net s) = (x, w)"
    by (cases "extract_row cfg lib r env (net s)")
  with assms(3) have "x = Inl e" by simp
  with xw assms(1,2) show ?thesis
    by (simp add: process_row_def Let_def extract_row_def)
qed

lemma process_row_success:
  assumes "product_url r \<noteq> []" "price_selector_css r \<noteq> []"
    "fst (extract_row cfg lib r env (net s)) = Inr a"
  shows "process_row cfg lib (r, env) s =
     (let w = snd (extract_row cfg lib r env (net s));
          entry = \<lparr>obs_ts = \<lfloor>clock w\<rfloor>, obs_competitor = competitor r,
                    obs_product_name = product_name r, obs_amount = Some a,
                    obs_currency = currency r\<rparr>;
          s1 = s\<lparr>net := w, history := append_entry (history s) (product_url r) entry\<rparr>
      in case classify cfg (last_amount (history s) (product_url r)) a of
           Init x \<Rightarrow> (emit r (Init x) s1)\<lparr>init_count := init_count s + 1\<rparr>
         | Change p x pct \<Rightarrow> (emit r (Change p x pct) s1)\<lparr>change_count := change_count s + 1\<rparr>
         | out \<Rightarrow> log_only r out s1)"
proof -
  obtain x w where xw: "extract_row cfg lib r env (net s) = (x, w)"
    by (cases "extract_row cfg lib r env (net s)")
  with assms(3) have "x = Inr a" by simp
  with xw assms(1,2) show ?thesis
    by (simp add: process_row_def Let_def extract_row_def)
qed

lemma process_row_history:
  "history (process_row cfg lib (r, env) s) =
     (if product_url r = [] \<or> price_selector_css r = [] then history s
      else case fst (extract_row cfg lib r env (net s)) of
             Inl e \<Rightarrow> history s
           | Inr a \<Rightarrow>
               append_entry (history s) (product_url r)
                 \<lparr>obs_ts = \<lfloor>clock (snd (extract_row cfg lib r env (net s)))\<rfloor>,
                  obs_competitor = competitor r, obs_product_name = product_name r,
                  obs_amount = Some a, obs_currency = currency r\<rparr>)"
proof (cases "product_url r = [] \<or> price_selector_css r = []")
  case True
  then show ?thesis by (simp add: process_row_skip log_only_def)
next
  case False
  then have ne: "product_url r \<noteq> []" "price_selector_css r \<noteq> []" by simp_all
  show ?thesis
  proof (cases "fst (extract_row cfg lib r env (net s))")
    case (Inl e)
    with ne show ?thesis by (simp add: process_row_error emit_def)
  next
    case (Inr a)
    with ne show ?thesis
      by (simp add: process_row_success Let_def emit_def log_only_def split: outcome.splits)
  qed
qed

lemma extract_price_page:
  "fst (http_get_with_backoff cfg lib env url st) = Inr resp \<Longrightarrow>
   fst (extract_price cfg lib env url selector attr regex hint st)
     = extract_page cfg lib url selector attr regex hint (body resp)"
  by (cases "http_get_with_backoff cfg lib env url st") (simp add: extract_price_def)

lemma extract_price_error:
  "fst (http_get_with_backoff cfg lib env url st) = Inl e \<Longrightarrow>
   fst (extract_price cfg lib env url selector attr regex hint st) = Inl e"
  by (cases "http_get_with_backoff cfg lib env url st") (simp add: extract_price_def)

lemma extract_price_world:
  "snd (extract_price cfg lib env url selector attr regex hint st)
     = snd (http_get_with_backoff cfg lib env url st)"
  by (cases "http_get_with_backoff cfg lib env url st")
    (auto simp: extract_price_def split: sum.splits)

lemma fetch_replying_200:
  "fst (http_get_with_backoff cfg lib (replying 200 pg) url st)
     = Inr \<lparr>status_code = 200, body = pg\<rparr>"
  unfolding http_get_with_backoff_def attempts_list
  by (subst http_loop_decided [where r = "\<lparr>status_code = 200, body = pg\<rparr>"])
    (simp_all add: replying_def retryable_def raise_for_status_def)

lemma fetch_failing:
  "fst (http_get_with_backoff cfg lib failing url st) = Inl NetworkError"
  unfolding http_get_with_backoff_def attempts_list
  by (simp add: failing_def Let_def)

lemma extract_text_page_950:
  "extract_page cfg sample_library ''https://example.com/rower'' ''.price''
     ''inner_text'' DEFAULT_REGEX (Some ''Rower'') (text_page ''now $950.00'') = Inr 950"
proof -
  have f: "findall_dollar ''now $950.00'' = [''950.00'']"
    by (simp add: match_number_def is_digit_def is_tok_char_def)
  have n: "norm_price DEFAULT_REGEX (Some ''950.00'') = Some 950"
    by (simp add: norm_price_def DEFAULT_REGEX_def collapse_points_def py_count_def
        py_float_def is_digit_def dec_val_def digit_val_def)
  have "dollar_amounts DEFAULT_REGEX ''now $950.00'' = [950]"
    unfolding dollar_amounts_def f by (simp add: map_filter_simps n)
  then have "heuristic_price cfg DEFAULT_REGEX ''now $950.00'' = Some 950"
    by (simp add: heuristic_price_def)
  then show ?thesis
    by (simp add: extract_page_def selector_price_def text_page_def peloton_price_def)
qed

lemma extract_row_sample_950:
  "fst (extract_row cfg sample_library sample_rule (replying 200 (text_page ''now $950.00'')) st)
     = Inr 950"
proof -
  have "fst (extract_row cfg sample_library sample_rule (replying 200 (text_page ''now $950.00'')) st)
      = extract_page cfg sample_library ''https://example.com/rower'' ''.price''
          ''inner_text'' DEFAULT_REGEX (Some ''Rower'')
          (body \<lparr>status_code = 200, body = text_page ''now $950.00''\<rparr>)"
    unfolding extract_row_def
    by (subst extract_price_page [OF fetch_replying_200]) (simp add: sample_rule_def)
  then show ?thesis by (simp add: extract_text_page_950)
qed

lemma last_amount_start: "last_amount (history start_state) (product_url sample_rule) = Some 1000"
  by (simp add: last_amount_def start_state_def sample_rule_def)



section \<open>The history is append-only\<close>

lemma http_loop_clock_mono:
  assumes "env_ok env"
  shows "0 \<le> d \<Longrightarrow> clock st \<le> clock (snd (http_loop cfg lib env url as d st))"
proof (induction as arbitrary: d st)
  case Nil
  show ?case by simp
next
  case (Cons a as)
  let ?st1 = "throttle lib (throttle_jitter (env a)) url st"
  let ?st2 = "?st1\<lparr>clock := clock ?st1 + duration (env a),
                      trace := trace ?st1 @ [Request (maybe_proxy cfg url) (clock ?st1)]\<rparr>"
  let ?w = "d + backoff_jitter (env a)"
  let ?st3 = "sleep (BackoffSleep ?w) ?w ?st2"
  from assms have ok: "0 \<le> duration (env a)" "0 \<le> backoff_jitter (env a)"
    by (simp_all add: env_ok_def)
  have c2: "clock st \<le> clock ?st2"
    using throttle_clock_mono [of st lib "throttle_jitter (env a)" url] ok(1) by simp
  have c3: "clock st \<le> clock ?st3"
    using c2 ok(2) Cons.prems by (simp add: sleep_def)
  show ?case
  proof (cases "\<exists>r. reply (env a) = Some r \<and> retryable r")
    case True
    then obtain r where r: "reply (env a) = Some r" "retryable r" by auto
    have step: "http_loop cfg lib env url (a # as) d st
        = http_loop cfg lib env url as (min (d * 2) 30) ?st3"
      using http_loop_retry_step [where env = env and a = a and r = r] r by simp
    have "0 \<le> min (d * 2) 30" using Cons.prems by simp
    from Cons.IH [OF this, of ?st3] c3 show ?thesis unfolding step by linarith
  next
    case False
    then have fin: "\<forall>r. reply (env a) = Some r \<longrightarrow> \<not> retryable r" by simp
    have s2: "snd (http_loop cfg lib env url (a # as) d st) = ?st2"
      using fin by (auto simp: Let_def retryable_def split: option.splits)
    show ?thesis unfolding s2 using c2 .
  qed
qed

lemma extract_row_clock_mono:
  "env_ok env \<Longrightarrow> clock st \<le> clock (snd (extract_row cfg lib r env st))"
  unfolding extract_row_def extract_price_world http_get_with_backoff_def
  by (rule http_loop_clock_mono) simp_all

lemma process_row_net:
  "net (process_row cfg lib (r, env) s) =
     (if product_url r = [] \<or> price_selector_css r = [] then net s
      else snd (extract_row cfg lib r env (net s)))"
proof (cases "product_url r = [] \<or> price_selector_css r = []")
  case True
  then show ?thesis by (simp add: process_row_skip log_only_def)
next
  case False
  then have ne: "product_url r \<noteq> []" "price_selector_css r \<noteq> []" by simp_all
  show ?thesis
  proof (cases "fst (extract_row cfg lib r env (net s))")
    case (Inl e)
    with ne show ?thesis by (simp add: process_row_error emit_def)
  next
    case (Inr a)
    with ne show ?thesis
      by (simp add: process_row_success Let_def emit_def log_only_def split: outcome.splits)
  qed
qed

lemma process_row_clock_mono:
  "env_ok env \<Longrightarrow> clock (net s) \<le> clock (net (process_row cfg lib (r, env) s))"
  by (simp add: process_row_net extract_row_clock_mono)

lemma entries_append_entry:
  "entries (append_entry h key e) u = (if u = key then entries h key @ [e] else entries h u)"
  by (simp add: entries_def append_entry_def)

lemma last_amount_entries:
  "last_amount h key = (if entries h key \<noteq> [] then obs_amount (last (entries h key)) else None)"
  by (simp add: last_amount_def entries_def split: option.splits)

lemma process_row_entries_prefix:
  "\<exists>new. entries (history (process_row cfg lib (r, env) s)) u = entries (history s) u @ new"
  by (auto simp: process_row_history entries_append_entry split: sum.splits)

lemma main_loop_entries_prefix:
  "\<exists>new. entries (history (main_loop cfg lib rows s)) u = entries (history s) u @ new"
proof (induction rows arbitrary: s)
  case Nil
  show ?case by simp
next
  case (Cons row rows)
  obtain r env where row: "row = (r, env)" by (cases row)
  from process_row_entries_prefix [of cfg lib r env s u] obtain n1 where
    n1: "entries (history (process_row cfg lib (r, env) s)) u = entries (history s) u @ n1" ..
  from Cons.IH [of "process_row cfg lib (r, env) s"] obtain n2 where
    n2: "entries (history (main_loop cfg lib rows (process_row cfg lib (r, env) s))) u
           = entries (history (process_row cfg lib (r, env) s)) u @ n2" ..
  from n1 n2 row show ?case by simp
qed

lemma process_row_ordered:
  assumes "env_ok env" "history_ordered s"
  shows "history_ordered (process_row cfg lib (r, env) s)"
proof -
  let ?s' = "process_row cfg lib (r, env) s"
  from assms(1) have fl: "\<lfloor>clock (net s)\<rfloor> \<le> \<lfloor>clock (net ?s')\<rfloor>"
    by (intro floor_mono process_row_clock_mono)
  from assms(2) have so: "\<And>u. sorted (map obs_ts (entries (history s) u))"
    and bd: "\<And>u ob. ob \<in> set (entries (history s) u) \<Longrightarrow> obs_ts ob \<le> \<lfloor>clock (net s)\<rfloor>"
    by (simp_all add: history_ordered_def)
  show ?thesis
  proof (cases "history ?s' = history s")
    case True
    with so bd fl show ?thesis
      by (auto simp: history_ordered_def intro: order_trans)
  next
    case False
    then have ne: "\<not> (product_url r = [] \<or> price_selector_css r = [])"
      by (auto simp: process_row_history)
    with False obtain a where a: "fst (extract_row cfg lib r env (net s)) = Inr a"
      by (cases "fst (extract_row cfg lib r env (net s))") (auto simp: process_row_history)
    let ?e = "\<lparr>obs_ts = \<lfloor>clock (snd (extract_row cfg lib r env (net s)))\<rfloor>,
               obs_competitor = competitor r, obs_product_name = product_name r,
               obs_amount = Some a, obs_currency = currency r\<rparr>"
    from ne a have h: "history ?s' = append_entry (history s) (product_url r) ?e"
      by (simp add: process_row_history)
    from ne have nt: "net ?s' = snd (extract_row cfg lib r env (net s))"
      by (simp add: process_row_net)
    have ts: "obs_ts ?e = \<lfloor>clock (net ?s')\<rfloor>" by (simp add: nt)
    show ?thesis
      unfolding history_ordered_def
    proof (intro allI conjI ballI)
      fix u
      show "sorted (map obs_ts (entries (history ?s') u))"
      proof (cases "u = product_url r")
        case True
        have "\<forall>x \<in> set (map obs_ts (entries (history s) u)). x \<le> obs_ts ?e"
          using bd [of _ u] fl ts by (auto intro: order_trans)
        with so [of u] True show ?thesis
          unfolding h by (simp add: entries_append_entry sorted_append)
      next
        case False
        with so [of u] show ?thesis unfolding h by (simp add: entries_append_entry)
      qed
    next
      fix u ob assume "ob \<in> set (entries (history ?s') u)"
      then have "ob \<in> set (entries (history s) u) \<or> ob = ?e"
        unfolding h by (auto simp: entries_append_entry split: if_splits)
      then show "obs_ts ob \<le> \<lfloor>clock (net ?s')\<rfloor>"
        using bd [of ob u] fl ts by (auto intro: order_trans)
    qed
  qed
qed

lemma main_loop_ordered:
  "\<forall>row \<in> set rows. env_ok (snd row) \<Longrightarrow> history_ordered s \<Longrightarrow>
   history_ordered (main_loop cfg lib rows s)"
proof (induction rows arbitrary: s)
  case Nil
  then show ?case by simp
next
  case (Cons row rows)
  obtain r env where row: "row = (r, env)" by (cases row)
  with Cons.prems have "env_ok env" by simp
  from this Cons.prems(2) have "history_ordered (process_row cfg lib (r, env) s)"
    by (rule process_row_ordered)
  with Cons.IH [of "process_row cfg lib (r, env) s"] Cons.prems(1) row show ?case by simp
qed

lemma extract_row_failing:
  "fst (extract_row cfg lib r failing st) = Inl NetworkError"
  unfolding extract_row_def by (rule extract_price_error) (rule fetch_failing)

lemma history_ordered_start: "history_ordered start_state"
  by (simp add: history_ordered_def entries_def start_state_def start_world_def)

lemma env_ok_samples: "env_ok (replying c pg)" "env_ok failing"
  by (simp_all add: env_ok_def replying_def failing_def)

text \<open>
  C4. In every state of a run, processing a row whose extraction succeeds appends
  exactly one observation, holding the extracted amount and the clock's second, at the
  end of the list stored for the row's URL and touches no other list; a failed fetch or
  extraction, like a skipped row, leaves the whole history as it was. With requests that
  take no negative time, a history in timestamp order stays in timestamp order, row by
  row and over the whole run, and at the end of a run every list still starts with the
  observations it had at the start. When the extracted amount equals the last stored
  one, the row still appends just one observation, emits no event and is printed as
  unchanged.
\<close>

theorem history_append_only:
  "(product_url r \<noteq> [] \<and> price_selector_css r \<noteq> []
      \<and> fst (extract_row cfg lib r env (net s)) = Inr a \<longrightarrow>
      entries (history (process_row cfg lib (r, env) s)) (product_url r)
        = entries (history s) (product_url r)
          @ [\<lparr>obs_ts = \<lfloor>clock (snd (extract_row cfg lib r env (net s)))\<rfloor>,
               obs_competitor = competitor r, obs_product_name = product_name r,
               obs_amount = Some a, obs_currency = currency r\<rparr>]
      \<and> (\<forall>u. u \<noteq> product_url r \<longrightarrow>
            history (process_row cfg lib (r, env) s) u = history s u))
   \<and> (fst (extract_row cfg lib r env (net s)) = Inl e \<longrightarrow>
      history (process_row cfg lib (r, env) s) = history s)
   \<and> (product_url r = [] \<or> price_selector_css r = [] \<longrightarrow>
      history (process_row cfg lib (r, env) s) = history s)
   \<and> (env_ok env \<and> history_ordered s \<longrightarrow>
      history_ordered (process_row cfg lib (r, env) s))
   \<and> ((\<forall>row \<in> set rows. env_ok (snd row)) \<and> history_ordered s \<longrightarrow>
      history_ordered (main_loop cfg lib rows s))
   \<and> take (length (entries (history s) u)) (entries (history (main_loop cfg lib rows s)) u)
       = entries (history s) u
   \<and> (product_url r \<noteq> [] \<and> price_selector_css r \<noteq> []
        \<and> fst (extract_row cfg lib r env (net s)) = Inr a
        \<and> last_amount (history s) (product_url r) = Some a \<longrightarrow>
      length (entries (history (process_row cfg lib (r, env) s)) (product_url r))
        = length (entries (history s) (product_url r)) + 1
      \<and> events_by_comp (process_row cfg lib (r, env) s) = events_by_comp s
      \<and> printed (process_row cfg lib (r, env) s) = printed s @ [mk_line r (NoChange a)])"
proof (intro conjI impI allI)
  assume h: "product_url r \<noteq> [] \<and> price_selector_css r \<noteq> []
      \<and> fst (extract_row cfg lib r env (net s)) = Inr a"
  then have hist: "history (process_row cfg lib (r, env) s)
      = append_entry (history s) (product_url r)
          \<lparr>obs_ts = \<lfloor>clock (snd (extract_row cfg lib r env (net s)))\<rfloor>,
           obs_competitor = competitor r, obs_product_name = product_name r,
           obs_amount = Some a, obs_currency = currency r\<rparr>"
    by (simp add: process_row_history)
  show "entries (history (process_row cfg lib (r, env) s)) (product_url r)
        = entries (history s) (product_url r)
          @ [\<lparr>obs_ts = \<lfloor>clock (snd (extract_row cfg lib r env (net s)))\<rfloor>,
               obs_competitor = competitor r, obs_product_name = product_name r,
               obs_amount = Some a, obs_currency = currency r\<rparr>]"
    unfolding hist by (simp add: entries_append_entry)
  fix u assume "u \<noteq> product_url r"
  then show "history (process_row cfg lib (r, env) s) u = history s u"
    unfolding hist by (simp add: append_entry_def)
next
  assume "fst (extract_row cfg lib r env (net s)) = Inl e"
  then show "history (process_row cfg lib (r, env) s) = history s"
    by (simp add: process_row_history)
next
  assume "product_url r = [] \<or> price_selector_css r = []"
  then show "history (process_row cfg lib (r, env) s) = history s"
    by (simp add: process_row_history)
next
  assume "env_ok env \<and> history_ordered s"
  then show "history_ordered (process_row cfg lib (r, env) s)"
    by (simp add: process_row_ordered)
next
  assume "(\<forall>row \<in> set rows. env_ok (snd row)) \<and> history_ordered s"
  then show "history_ordered (main_loop cfg lib rows s)"
    by (simp add: main_loop_ordered)
next
  from main_loop_entries_prefix [of cfg lib rows s u] obtain new where
    "entries (history (main_loop cfg lib rows s)) u = entries (history s) u @ new" ..
  then show "take (length (entries (history s) u)) (entries (history (main_loop cfg lib rows s)) u)
       = entries (history s) u"
    by simp
next
  assume h: "product_url r \<noteq> [] \<and> price_selector_css r \<noteq> []
        \<and> fst (extract_row cfg lib r env (net s)) = Inr a
        \<and> last_amount (history s) (product_url r) = Some a"
  have c: "classify cfg (Some a) a = NoChange a"
    by (simp add: classify_def)
  from h have pr: "process_row cfg lib (r, env) s =
     (let w = snd (extract_row cfg lib r env (net s));
          entry = \<lparr>obs_ts = \<lfloor>clock w\<rfloor>, obs_competitor = competitor r,
                    obs_product_name = product_name r, obs_amount = Some a,
                    obs_currency = currency r\<rparr>;
          s1 = s\<lparr>net := w, history := append_entry (history s) (product_url r) entry\<rparr>
      in log_only r (NoChange a) s1)"
    using process_row_success [of r cfg lib env s a] by (simp add: c Let_def)
  show "length (entries (history (process_row cfg lib (r, env) s)) (product_url r))
        = length (entries (history s) (product_url r)) + 1"
    and "events_by_comp (process_row cfg lib (r, env) s) = events_by_comp s"
    and "printed (process_row cfg lib (r, env) s) = printed s @ [mk_line r (NoChange a)]"
    unfolding pr by (simp_all add: Let_def log_only_def entries_append_entry)
qed

theorem history_append_only_witness:
  "map obs_amount (entries (history (process_row default_config sample_library
       (sample_rule, replying 200 (text_page ''now $950.00'')) start_state))
       ''https://example.com/rower'') = [Some 1000, Some 950]
   \<and> history (process_row default_config sample_library (sample_rule, failing) start_state)
       = history start_state
   \<and> history (process_row default_config sample_library
       (sample_rule\<lparr>price_selector_css := []\<rparr>, replying 200 (text_page ''now $950.00''))
       start_state) = history start_state
   \<and> sorted (map obs_ts (entries (history (process_row default_config sample_library
       (sample_rule, replying 200 (text_page ''now $950.00'')) start_state))
       ''https://example.com/rower''))
   \<and> sorted (map obs_ts (entries (history (main_loop default_config sample_library
       [(sample_rule, replying 200 (text_page ''now $950.00'')), (sample_rule, failing)]
       start_state)) ''https://example.com/rower''))
   \<and> take 1 (entries (history (main_loop default_config sample_library
       [(sample_rule, replying 200 (text_page ''now $950.00'')), (sample_rule, failing)]
       start_state)) ''https://example.com/rower'')
       = entries (history start_state) ''https://example.com/rower''
   \<and> length (entries (history (process_row default_config sample_library
       (sample_rule, replying 200 (text_page ''now $950.00''))
       (process_row default_config sample_library
         (sample_rule, replying 200 (text_page ''now $950.00'')) start_state)))
       ''https://example.com/rower'') = 3
   \<and> events_by_comp (process_row default_config sample_library
       (sample_rule, replying 200 (text_page ''now $950.00''))
       (process_row default_config sample_library
         (sample_rule, replying 200 (text_page ''now $950.00'')) start_state))
       = events_by_comp (process_row default_config sample_library
         (sample_rule, replying 200 (text_page ''now $950.00'')) start_state)"
proof -
  let ?u = "''https://example.com/rower''"
  let ?envA = "replying 200 (text_page ''now $950.00'')"
  let ?skip = "sample_rule\<lparr>price_selector_css := []\<rparr>"
  let ?rows = "[(sample_rule, ?envA), (sample_rule, failing)]"
  let ?s1 = "process_row default_config sample_library (sample_rule, ?envA) start_state"
  let ?s2 = "process_row default_config sample_library (sample_rule, ?envA) ?s1"
  have row: "product_url sample_rule \<noteq> [] \<and> price_selector_css sample_rule \<noteq> []"
    "product_url sample_rule = ?u"
    by (simp_all add: sample_rule_def)
  have sk: "product_url ?skip = [] \<or> price_selector_css ?skip = []" by simp
  have e0: "map obs_amount (entries (history start_state) ?u) = [Some 1000]"
    "length (entries (history start_state) ?u) = 1"
    by (simp_all add: entries_def start_state_def)
  have oks: "\<forall>row \<in> set ?rows. env_ok (snd row)" by (simp add: env_ok_samples)
  note t1 = history_append_only [of sample_rule default_config sample_library ?envA start_state
      950 NetworkError ?rows ?u]
  note t2 = history_append_only [of sample_rule default_config sample_library failing start_state
      950 NetworkError ?rows ?u]
  note t3 = history_append_only [of ?skip default_config sample_library ?envA start_state
      950 NetworkError ?rows ?u]
  note t4 = history_append_only [of sample_rule default_config sample_library ?envA ?s1
      950 NetworkError ?rows ?u]
  from t1 row(1) extract_row_sample_950 [of default_config "net start_state"]
  have a1: "entries (history ?s1) (product_url sample_rule)
      = entries (history start_state) (product_url sample_rule)
        @ [\<lparr>obs_ts = \<lfloor>clock (snd (extract_row default_config sample_library sample_rule
                      ?envA (net start_state)))\<rfloor>,
             obs_competitor = competitor sample_rule, obs_product_name = product_name sample_rule,
             obs_amount = Some 950, obs_currency = currency sample_rule\<rparr>]"
    by blast
  then have w1: "map obs_amount (entries (history ?s1) ?u) = [Some 1000, Some 950]"
    and l1: "length (entries (history ?s1) ?u) = 2"
    by (simp_all add: row(2) e0)
  from a1 have la: "last_amount (history ?s1) (product_url sample_rule) = Some 950"
    by (simp add: last_amount_entries)
  from t2 extract_row_failing [of default_config sample_library sample_rule "net start_state"]
  have w2: "history (process_row default_config sample_library (sample_rule, failing) start_state)
      = history start_state"
    by blast
  from t3 sk have w3: "history (process_row default_config sample_library (?skip, ?envA) start_state)
      = history start_state"
    by blast
  from t1 env_ok_samples(1) [of 200 "text_page ''now $950.00''"] history_ordered_start
  have "history_ordered ?s1" by blast
  then have w4: "sorted (map obs_ts (entries (history ?s1) ?u))"
    by (simp add: history_ordered_def)
  from t1 oks history_ordered_start
  have "history_ordered (main_loop default_config sample_library ?rows start_state)" by blast
  then have w5: "sorted (map obs_ts (entries (history (main_loop default_config sample_library
      ?rows start_state)) ?u))"
    by (simp add: history_ordered_def)
  from t1 have "take (length (entries (history start_state) ?u))
      (entries (history (main_loop default_config sample_library ?rows start_state)) ?u)
      = entries (history start_state) ?u"
    by blast
  then have w6: "take 1 (entries (history (main_loop default_config sample_library ?rows
      start_state)) ?u) = entries (history start_state) ?u"
    by (simp add: e0)
  from t4 row(1) extract_row_sample_950 [of default_config "net ?s1"] la
  have "length (entries (history ?s2) (product_url sample_rule))
      = length (entries (history ?s1) (product_url sample_rule)) + 1"
    and w8: "events_by_comp ?s2 = events_by_comp ?s1"
    by blast+
  then have w7: "length (entries (history ?s2) ?u) = 3"
    by (simp add: row(2) l1)
  from w1 w2 w3 w4 w5 w6 w7 w8 show ?thesis by (simp only: simp_thms)
qed

section \<open>Failures stay with their row\<close>

lemma process_row_printed:
  "length (printed (process_row cfg lib (r, env) s)) = Suc (length (printed s))"
proof (cases "product_url r = [] \<or> price_selector_css r = []")
  case True
  then show ?thesis by (simp add: process_row_skip log_only_def)
next
  case False
  then have ne: "product_url r \<noteq> []" "price_selector_css r \<noteq> []" by simp_all
  show ?thesis
  proof (cases "fst (extract_row cfg lib r env (net s))")
    case (Inl e)
    with ne show ?thesis by (simp add: process_row_error emit_def)
  next
    case (Inr a)
    with ne show ?thesis
      by (simp add: process_row_success Let_def emit_def log_only_def split: outcome.splits)
  qed
qed

lemma main_loop_printed:
  "length (printed (main_loop cfg lib rows s)) = length (printed s) + length rows"
proof (induction rows arbitrary: s)
  case Nil
  show ?case by simp
next
  case (Cons row rows)
  obtain r env where row: "row = (r, env)" by (cases row)
  from Cons.IH [of "process_row cfg lib (r, env) s"] row show ?case
    by (simp add: process_row_printed)
qed

text \<open>
  C5. When the fetch or the extraction of a row raises, the exception is caught for that
  row: an Error line that holds the reason is printed and added under the row's
  competitor, the error counter goes up, the history (and with it the last stored
  amount of every URL) is left as it was, and the loop goes on with the next row from
  the state so reached. Every row of the list is processed to one printed line,
  however many rows fail.
\<close>

theorem failure_is_per_rule:
  "(product_url r \<noteq> [] \<and> price_selector_css r \<noteq> []
      \<and> fst (extract_row cfg lib r env (net s)) = Inl e \<longrightarrow>
      events_by_comp (process_row cfg lib (r, env) s) (competitor r)
        = events_by_comp s (competitor r) @ [mk_line r (Error e)]
      \<and> printed (process_row cfg lib (r, env) s) = printed s @ [mk_line r (Error e)]
      \<and> error_count (process_row cfg lib (r, env) s) = error_count s + 1
      \<and> init_count (process_row cfg lib (r, env) s) = init_count s
      \<and> change_count (process_row cfg lib (r, env) s) = change_count s
      \<and> history (process_row cfg lib (r, env) s) = history s
      \<and> last_amount (history (process_row cfg lib (r, env) s)) u = last_amount (history s) u
      \<and> main_loop cfg lib ((r, env) # rows) s
          = main_loop cfg lib rows
              ((emit r (Error e) (s\<lparr>net := snd (extract_row cfg lib r env (net s))\<rparr>))
                 \<lparr>error_count := error_count s + 1\<rparr>))
   \<and> length (printed (main_loop cfg lib rows s)) = length (printed s) + length rows"
proof (intro conjI impI)
  assume h: "product_url r \<noteq> [] \<and> price_selector_css r \<noteq> []
      \<and> fst (extract_row cfg lib r env (net s)) = Inl e"
  then have pr: "process_row cfg lib (r, env) s
     = (emit r (Error e) (s\<lparr>net := snd (extract_row cfg lib r env (net s))\<rparr>))
         \<lparr>error_count := error_count s + 1\<rparr>"
    by (simp add: process_row_error)
  show "events_by_comp (process_row cfg lib (r, env) s) (competitor r)
        = events_by_comp s (competitor r) @ [mk_line r (Error e)]"
    and "printed (process_row cfg lib (r, env) s) = printed s @ [mk_line r (Error e)]"
    and "error_count (process_row cfg lib (r, env) s) = error_count s + 1"
    and "init_count (process_row cfg lib (r, env) s) = init_count s"
    and "change_count (process_row cfg lib (r, env) s) = change_count s"
    and hs: "history (process_row cfg lib (r, env) s) = history s"
    unfolding pr by (simp_all add: emit_def)
  from hs show "last_amount (history (process_row cfg lib (r, env) s)) u = last_amount (history s) u"
    by simp
  from pr show "main_loop cfg lib ((r, env) # rows) s
          = main_loop cfg lib rows
              ((emit r (Error e) (s\<lparr>net := snd (extract_row cfg lib r env (net s))\<rparr>))
                 \<lparr>error_count := error_count s + 1\<rparr>)"
    by simp
next
  show "length (printed (main_loop cfg lib rows s)) = length (printed s) + length rows"
    by (rule main_loop_printed)
qed

theorem failure_is_per_rule_witness:
  "events_by_comp (process_row default_config sample_library (sample_rule, failing) start_state)
       ''Acme'' = [mk_line sample_rule (Error NetworkError)]
   \<and> error_count (process_row default_config sample_library (sample_rule, failing) start_state)
       = 1
   \<and> last_amount (history (process_row default_config sample_library (sample_rule, failing)
       start_state)) ''https://example.com/rower'' = Some 1000
   \<and> map line_outcome (events_by_comp (main_loop default_config sample_library
       [(sample_rule, failing), (sample_rule, replying 200 (text_page ''now $950.00''))]
       start_state) ''Acme'')
       = [Error NetworkError, Change 1000 950 5]"
proof -
  let ?u = "''https://example.com/rower''"
  let ?envA = "replying 200 (text_page ''now $950.00'')"
  let ?s1 = "process_row default_config sample_library (sample_rule, failing) start_state"
  let ?s1' = "(emit sample_rule (Error NetworkError)
      (start_state\<lparr>net := snd (extract_row default_config sample_library sample_rule failing
          (net start_state))\<rparr>))\<lparr>error_count := error_count start_state + 1\<rparr>"
  have row: "product_url sample_rule \<noteq> [] \<and> price_selector_css sample_rule \<noteq> []"
    "product_url sample_rule = ?u" "competitor sample_rule = ''Acme''"
    by (simp_all add: sample_rule_def)
  have st: "events_by_comp start_state ''Acme'' = []" "error_count start_state = 0"
    by (simp_all add: start_state_def)
  note t = failure_is_per_rule [of sample_rule default_config sample_library failing start_state
      NetworkError ?u "[(sample_rule, ?envA)]"]
  from t row(1) extract_row_failing [of default_config sample_library sample_rule "net start_state"]
  have a: "events_by_comp ?s1 (competitor sample_rule)
        = events_by_comp start_state (competitor sample_rule) @ [mk_line sample_rule (Error NetworkError)]"
    and b: "error_count ?s1 = error_count start_state + 1"
    and c: "last_amount (history ?s1) ?u = last_amount (history start_state) ?u"
    and hs: "history ?s1 = history start_state"
    and d: "main_loop default_config sample_library [(sample_rule, failing), (sample_rule, ?envA)]
          start_state
        = main_loop default_config sample_library [(sample_rule, ?envA)] ?s1'"
    and s1: "printed ?s1 = printed start_state @ [mk_line sample_rule (Error NetworkError)]"
    by blast+
  from row(1) extract_row_failing [of default_config sample_library sample_rule "net start_state"]
  have eq: "?s1 = ?s1'" by (simp add: process_row_error)
  from c have c': "last_amount (history ?s1) ?u = Some 1000"
    using last_amount_start by (simp add: row(2))
  from hs have la: "last_amount (history ?s1) (product_url sample_rule) = Some 1000"
    using last_amount_start by simp
  have ne: "(950::rat) \<noteq> 1000" by simp
  have th: "CHANGE_THRESHOLD_PCT default_config \<le> change_pct 1000 950"
    by (simp add: change_pct_def default_config_def)
  have cl: "classify default_config (Some 1000) 950 = Change 1000 950 (change_pct 1000 950)"
    using ne th by (simp add: classify_changed)
  from process_row_success [of sample_rule default_config sample_library ?envA ?s1 950]
    row(1) extract_row_sample_950 [of default_config "net ?s1"]
  have "events_by_comp (process_row default_config sample_library (sample_rule, ?envA) ?s1)
        (competitor sample_rule)
      = events_by_comp ?s1 (competitor sample_rule)
        @ [mk_line sample_rule (Change 1000 950 (change_pct 1000 950))]"
    by (simp add: la cl Let_def emit_def)
  with a d eq have e: "map line_outcome (events_by_comp (main_loop default_config sample_library
      [(sample_rule, failing), (sample_rule, ?envA)] start_state) ''Acme'')
      = [Error NetworkError, Change 1000 950 5]"
    by (simp add: row(3) st mk_line_def change_pct_def)
  from a b c' e show ?thesis by (simp add: row(3) st)
qed

end
